theory Spec2Isabelle
  imports Complex_Main "HOL-Library.Sublist" "HOL-Library.Char_ord" "HOL-Library.List_Lexorder"
begin

section \<open>Tables\<close>

text \<open>
  The dashboard script works on one pandas DataFrame. A cell holds a text, an integer, a
  boolean, a timestamp (nanoseconds since the epoch, as pandas stores it) or the missing
  value NaN / NaT. Floating-point cells other than NaN are not represented.
\<close>

datatype cell = StrV string | IntV int | BoolV bool | TimeV int | NaN

text \<open>
  A row is the dictionary of its column values, as in \<open>rows.append({...})\<close>; a key that is
  absent reads as NaN, which is what \<open>pd.DataFrame(rows)\<close> fills in.
\<close>

type_synonym row = "(string \<times> cell) list"

text \<open>The dtype of a categorical column: its categories and whether they are ordered.\<close>

record cat_dtype =
  categories :: "cell list"
  ordered :: bool

record frame =
  columns :: "string list"
  rows :: "row list"
  dtypes :: "(string \<times> cat_dtype) list"

text \<open>
  The exceptions the script can raise: \<open>KeyError\<close> for a column that is absent,
  \<open>MissingParseDates\<close> for the \<open>ValueError\<close> of \<open>read_csv\<close> ("Missing column provided to
  'parse_dates'", with the names it lists), \<open>EmptyChoice\<close> for the \<open>ValueError\<close> of
  \<open>rng.choice\<close> on an empty sequence, \<open>NotDatetimeLike\<close> for the \<open>AttributeError\<close> of the
  \<open>.dt\<close> accessor on a column that is not datetime-like, \<open>NotCategorical\<close> for that of the
  \<open>.cat\<close> accessor on a column that is not categorical, \<open>TypeError\<close> for \<open>pd.cut\<close> on
  values that are not numbers.
\<close>

datatype error =
    KeyError string
  | MissingParseDates "string list"
  | EmptyChoice
  | NotDatetimeLike
  | NotCategorical
  | TypeError

definition then_do :: "error + 'a \<Rightarrow> ('a \<Rightarrow> error + 'b) \<Rightarrow> error + 'b" where
  "then_do m f = (case m of Inl e \<Rightarrow> Inl e | Inr x \<Rightarrow> f x)"

definition cell_of :: "row \<Rightarrow> string \<Rightarrow> cell" where
  "cell_of r c = (case map_of r c of Some v \<Rightarrow> v | None \<Rightarrow> NaN)"

text \<open>\<open>df[c]\<close>: the column as a list of cells, or KeyError.\<close>

definition getitem :: "frame \<Rightarrow> string \<Rightarrow> error + cell list" where
  "getitem df c =
     (if c \<in> set (columns df) then Inr (map (\<lambda>r. cell_of r c) (rows df))
      else Inl (KeyError c))"

text \<open>\<open>df[mask]\<close>: the rows at which the boolean mask is true; columns and dtypes stay.\<close>

definition take_mask :: "frame \<Rightarrow> bool list \<Rightarrow> frame" where
  "take_mask df m = df\<lparr>rows := map fst (filter snd (zip (rows df) m))\<rparr>"

text \<open>\<open>series.isin(sel)\<close>.\<close>

definition isin :: "cell list \<Rightarrow> cell list \<Rightarrow> bool list" where
  "isin vs sel = map (\<lambda>v. v \<in> set sel) vs"

section \<open>Filters\<close>

text \<open>
  The sidebar's five multiselect results (\<open>course\<close>, \<open>unit\<close>, \<open>status\<close>, \<open>severity\<close>,
  \<open>assignee\<close> in the script).
\<close>

record selections =
  sel_course :: "cell list"
  sel_unit :: "cell list"
  sel_status :: "cell list"
  sel_severity :: "cell list"
  sel_assignee :: "cell list"

text \<open>One line \<open>if sel: fdf = fdf[fdf[c].isin(sel)]\<close>.\<close>

definition filter_by :: "string \<Rightarrow> cell list \<Rightarrow> frame \<Rightarrow> error + frame" where
  "filter_by c sel fdf =
     (if sel = [] then Inr fdf
      else case getitem fdf c of
             Inl e \<Rightarrow> Inl e
           | Inr vs \<Rightarrow> Inr (take_mask fdf (isin vs sel)))"

text \<open>Lines 80 to 85: \<open>fdf = df.copy()\<close> and the five filter lines, in their order.\<close>

definition apply_filters :: "frame \<Rightarrow> selections \<Rightarrow> error + frame" where
  "apply_filters df s =
     then_do (filter_by ''course_name'' (sel_course s) df) (\<lambda>f1.
     then_do (filter_by ''unit'' (sel_unit s) f1) (\<lambda>f2.
     then_do (filter_by ''status'' (sel_status s) f2) (\<lambda>f3.
     then_do (filter_by ''severity'' (sel_severity s) f3) (\<lambda>f4.
     filter_by ''assignee'' (sel_assignee s) f4))))"

text \<open>The filtered columns with their selections, in the order of the script.\<close>

definition filter_fields :: "selections \<Rightarrow> (string \<times> cell list) list" where
  "filter_fields s =
     [(''course_name'', sel_course s), (''unit'', sel_unit s), (''status'', sel_status s),
      (''severity'', sel_severity s), (''assignee'', sel_assignee s)]"

text \<open>A row passes when it lies in every selection that is not empty.\<close>

definition passes :: "selections \<Rightarrow> row \<Rightarrow> bool" where
  "passes s r = list_all (\<lambda>(c, sel). sel = [] \<or> cell_of r c \<in> set sel) (filter_fields s)"

section \<open>Free-text search\<close>

text \<open>
  \<open>str.lower()\<close> and \<open>str.strip()\<close> on the ASCII range: letters A to Z are lower-cased, the
  six ASCII white-space characters are stripped; other bytes are left as they are.
\<close>

definition lower_char :: "char \<Rightarrow> char" where
  "lower_char c =
     (let n = (of_char c :: nat) in if 65 \<le> n \<and> n \<le> 90 then char_of (n + 32) else c)"

definition lower :: "string \<Rightarrow> string" where
  "lower s = map lower_char s"

definition is_space :: "char \<Rightarrow> bool" where
  "is_space c = ((of_char c :: nat) \<in> {9, 10, 11, 12, 13, 32})"

definition strip :: "string \<Rightarrow> string" where
  "strip s = rev (dropWhile is_space (rev (dropWhile is_space s)))"



text \<open>\<open>temp.apply(..., axis=1)\<close>: the lambda row by row, stopping at the first exception.\<close>

fun apply_rows :: "(row \<Rightarrow> error + bool) \<Rightarrow> row list \<Rightarrow> error + bool list" where
  "apply_rows f [] = Inr []"
| "apply_rows f (r # rs) =
     (case f r of
        Inl e \<Rightarrow> Inl e
      | Inr b \<Rightarrow> (case apply_rows f rs of Inl e \<Rightarrow> Inl e | Inr bs \<Rightarrow> Inr (b # bs)))"


section \<open>Column operations\<close>

text \<open>The distinct elements of a list in the order of their first appearance.\<close>

fun uniq :: "'a list \<Rightarrow> 'a list" where
  "uniq [] = []"
| "uniq (x # xs) = x # filter (\<lambda>y. y \<noteq> x) (uniq xs)"

text \<open>
  \<open>pd.DataFrame(rows)\<close> on a list of dictionaries: the columns are the keys in the order
  in which they first appear, every row is read at every column.
\<close>

definition DataFrame :: "row list \<Rightarrow> frame" where
  "DataFrame rs =
     (let cols = uniq (concat (map (map fst) rs))
      in \<lparr>columns = cols, rows = map (\<lambda>r. map (\<lambda>c. (c, cell_of r c)) cols) rs, dtypes = []\<rparr>)"

definition set_cell :: "string \<Rightarrow> cell \<Rightarrow> row \<Rightarrow> row" where
  "set_cell c v r =
     (if c \<in> fst ` set r then map (\<lambda>(k, x). if k = c then (k, v) else (k, x)) r
      else r @ [(c, v)])"

text \<open>
  \<open>df[c] = values\<close>, where the values were computed from columns of the same frame: an
  existing column is overwritten in place, a new one is appended. The third argument is
  the categorical dtype of the assigned values, if they have one.
\<close>

definition setitem :: "frame \<Rightarrow> string \<Rightarrow> cell list \<Rightarrow> cat_dtype option \<Rightarrow> frame" where
  "setitem df c vs dt =
     \<lparr>columns = (if c \<in> set (columns df) then columns df else columns df @ [c]),
      rows = map (\<lambda>(v, r). set_cell c v r) (zip vs (rows df)),
      dtypes = (case dt of
                  None \<Rightarrow> filter (\<lambda>(k, d). k \<noteq> c) (dtypes df)
                | Some d \<Rightarrow> filter (\<lambda>(k, d). k \<noteq> c) (dtypes df) @ [(c, d)])\<rparr>"

text \<open>\<open>series.astype(dtype)\<close> for a categorical dtype: a value outside the categories becomes NaN.\<close>

definition astype :: "cat_dtype \<Rightarrow> cell list \<Rightarrow> cell list" where
  "astype dt vs = map (\<lambda>v. if v \<in> set (categories dt) then v else NaN) vs"

text \<open>
  The order pandas sorts the categories of \<open>astype("category")\<close> in: values of one kind
  are sorted, a column of mixed kinds keeps the order of appearance.
\<close>

fun cell_le :: "cell \<Rightarrow> cell \<Rightarrow> bool" where
  "cell_le (StrV a) (StrV b) = (a \<le> b)"
| "cell_le (IntV a) (IntV b) = (a \<le> b)"
| "cell_le (BoolV a) (BoolV b) = (a \<le> b)"
| "cell_le (TimeV a) (TimeV b) = (a \<le> b)"
| "cell_le _ _ = True"

fun insert_cell :: "cell \<Rightarrow> cell list \<Rightarrow> cell list" where
  "insert_cell x [] = [x]"
| "insert_cell x (y # ys) = (if cell_le x y then x # y # ys else y # insert_cell x ys)"

definition sort_cells :: "cell list \<Rightarrow> cell list" where
  "sort_cells vs = foldr insert_cell vs []"

definition infer_categories :: "cell list \<Rightarrow> cat_dtype" where
  "infer_categories vs =
     \<lparr>categories = sort_cells (uniq (filter (\<lambda>v. v \<noteq> NaN) vs)), ordered = False\<rparr>"

section \<open>Timestamps\<close>

definition NS_PER_DAY :: int where
  "NS_PER_DAY = 86400000000000"

text \<open>\<open>Timestamp.normalize()\<close>: midnight of the same day.\<close>

definition normalize :: "int \<Rightarrow> int" where
  "normalize t = t - t mod NS_PER_DAY"

text \<open>\<open>timedelta(days=k)\<close>.\<close>

definition timedelta :: "int \<Rightarrow> int" where
  "timedelta k = k * NS_PER_DAY"

text \<open>The \<open>.days\<close> of a time difference: whole days, rounded down.\<close>

definition days :: "int \<Rightarrow> int" where
  "days d = d div NS_PER_DAY"

section \<open>The random generator\<close>

text \<open>
  numpy's generator is a library: it is a parameter here. \<open>default_rng seed\<close> is the initial
  state, \<open>integers g lo hi\<close> draws from \<open>lo \<le> x < hi\<close>, \<open>choice_index g n p\<close> draws a position
  among \<open>n\<close> with the probabilities \<open>p\<close> (uniformly when \<open>p\<close> is empty); each returns the next
  state.
\<close>

record 'g generator =
  default_rng :: "nat \<Rightarrow> 'g"
  integers :: "'g \<Rightarrow> int \<Rightarrow> int \<Rightarrow> int \<times> 'g"
  choice_index :: "'g \<Rightarrow> nat \<Rightarrow> rat list \<Rightarrow> nat \<times> 'g"

text \<open>What numpy guarantees about the draws.\<close>

definition rng_ok :: "'g generator \<Rightarrow> bool" where
  "rng_ok G =
     ((\<forall>g lo hi. lo < hi \<longrightarrow> lo \<le> fst (integers G g lo hi) \<and> fst (integers G g lo hi) < hi) \<and>
      (\<forall>g n p. 0 < n \<longrightarrow> fst (choice_index G g n p) < n))"

text \<open>\<open>rng.choice(xs, p=p)\<close>; numpy raises ValueError on an empty sequence.\<close>

definition choice :: "'g generator \<Rightarrow> 'g \<Rightarrow> 'a list \<Rightarrow> rat list \<Rightarrow> error + ('a \<times> 'g)" where
  "choice G g xs p =
     (if xs = [] then Inl EmptyChoice
      else (let (i, g') = choice_index G g (length xs) p in Inr (xs ! i, g')))"

section \<open>The synthetic table\<close>

text \<open>Decimal digits of a natural number, and \<open>str\<close> of an integer as an f-string prints it.\<close>

fun digits :: "nat \<Rightarrow> string" where
  "digits n = (if n < 10 then [char_of (48 + n)] else digits (n div 10) @ [char_of (48 + n mod 10)])"

declare digits.simps [simp del]

definition str_int :: "int \<Rightarrow> string" where
  "str_int i = (if i < 0 then CHR ''-'' # digits (nat (- i)) else digits (nat i))"

definition STATUSES :: "cell list" where
  "STATUSES = [StrV ''Open'', StrV ''In Progress'', StrV ''Fixed'', StrV ''Verified'', StrV ''Closed'']"

definition statuses :: cat_dtype where
  "statuses = \<lparr>categories = STATUSES, ordered = True\<rparr>"

definition severities :: "cell list" where
  "severities = [StrV ''Low'', StrV ''Medium'', StrV ''High'', StrV ''Critical'']"

definition units :: "cell list" where
  "units = map (\<lambda>i. StrV (''Unit '' @ str_int (int i + 1))) [0..<8]"

definition item_types :: "cell list" where
  "item_types = [StrV ''Video'', StrV ''Quiz'', StrV ''Reading'', StrV ''Assignment'', StrV ''Slide'']"

definition courses_of :: "int \<Rightarrow> cell list" where
  "courses_of n_courses = map (\<lambda>i. StrV (''Course '' @ str_int (int i + 1))) [0..<nat n_courses]"

text \<open>
  One pass of the loop of lines 38 to 57, with the draws in the order the script makes
  them: the two day offsets, the status, then the dictionary's values from top to bottom.
\<close>

definition make_row :: "'g generator \<Rightarrow> cell list \<Rightarrow> int \<Rightarrow> int \<Rightarrow> 'g \<Rightarrow> error + (row \<times> 'g)" where
  "make_row G courses today i g0 =
     (let (d1, g1) = integers G g0 0 40;
          created = today - timedelta d1;
          (d2, g2) = integers G g1 0 15;
          updated = created + timedelta d2
      in
      then_do (choice G g2 (categories statuses) [1/4, 1/4, 1/5, 1/5, 1/10]) (\<lambda>(status, g3).
      then_do (choice G g3 courses []) (\<lambda>(course_name, g4).
      then_do (choice G g4 units []) (\<lambda>(unit, g5).
      (let (item, g6) = integers G g5 1 9999 in
      then_do (choice G g6 item_types []) (\<lambda>(item_type, g7).
      then_do (choice G g7 severities [9/20, 7/20, 3/20, 1/20]) (\<lambda>(severity, g8).
      then_do (choice G g8 [StrV ''QA'', StrV ''Author'', StrV ''Reviewer'', StrV ''Student''] [])
        (\<lambda>(reporter, g9).
      then_do (choice G g9 [StrV ''Alex'', StrV ''Sam'', StrV ''Riley'', StrV ''Jordan'', StrV ''Kim''] [])
        (\<lambda>(assignee, g10).
      then_do (choice G g10 [StrV ''typo'', StrV ''broken link'', StrV ''layout'', StrV ''audio'',
                             StrV ''timing'', StrV ''grading'', StrV ''accessibility''] [])
        (\<lambda>(notes, g11).
      then_do (choice G g11 [StrV ''Chrome'', StrV ''Safari'', StrV ''Firefox'', StrV ''Edge''] [])
        (\<lambda>(browser, g12).
      then_do (choice G g12 [StrV ''Staging'', StrV ''Production''] []) (\<lambda>(environment, g13).
      Inr ([(''issue_id'', StrV (''ISSUE-'' @ str_int (1000 + i))),
            (''course_name'', course_name),
            (''unit'', unit),
            (''item_id'', StrV (''ITEM-'' @ str_int item)),
            (''item_type'', item_type),
            (''status'', status),
            (''severity'', severity),
            (''reporter'', reporter),
            (''assignee'', assignee),
            (''created_at'', TimeV created),
            (''updated_at'', TimeV updated),
            (''notes'', notes),
            (''browser'', browser),
            (''environment'', environment)], g13)))))))))))))"

text \<open>The loop \<open>for i in range(n_rows)\<close>, threading the generator's state.\<close>

fun gen_rows :: "'g generator \<Rightarrow> cell list \<Rightarrow> int \<Rightarrow> nat list \<Rightarrow> 'g \<Rightarrow> error + row list" where
  "gen_rows G courses today [] g = Inr []"
| "gen_rows G courses today (i # is) g =
     then_do (make_row G courses today (int i) g) (\<lambda>(r, g').
     then_do (gen_rows G courses today is g') (\<lambda>rs. Inr (r # rs)))"

text \<open>\<open>sla_map\<close> and \<open>series.map(sla_map)\<close>: a value that is not a key maps to NaN.\<close>

definition sla_map :: "cell \<Rightarrow> cell" where
  "sla_map v =
     (if v = StrV ''Critical'' then IntV 2
      else if v = StrV ''High'' then IntV 5
      else if v = StrV ''Medium'' then IntV 10
      else if v = StrV ''Low'' then IntV 15
      else NaN)"

text \<open>\<open>(now - created_at).dt.days\<close> on one cell; NaT gives NaN.\<close>

definition age_of :: "int \<Rightarrow> cell \<Rightarrow> cell" where
  "age_of now v = (case v of TimeV t \<Rightarrow> IntV (days (now - t)) | _ \<Rightarrow> NaN)"

text \<open>\<open>a > b\<close> on two cells of numeric columns; a comparison with NaN is False.\<close>

definition gt_cell :: "cell \<Rightarrow> cell \<Rightarrow> cell" where
  "gt_cell a b = (case (a, b) of (IntV x, IntV y) \<Rightarrow> BoolV (y < x) | _ \<Rightarrow> BoolV False)"

text \<open>
  Lines 59 to 64 of \<open>example_data\<close>, the derived columns: the status column takes the
  ordered dtype, \<open>sla_days\<close> is mapped from the severity, \<open>age_days\<close> is counted from \<open>now\<close>,
  the value of \<open>pd.Timestamp.today()\<close> at line 63, and \<open>sla_breached\<close> compares the two.
\<close>

definition derive :: "int \<Rightarrow> frame \<Rightarrow> error + frame" where
  "derive now df0 =
     then_do (getitem df0 ''status'') (\<lambda>st.
     (let df1 = setitem df0 ''status'' (astype statuses st) (Some statuses) in
     then_do (getitem df1 ''severity'') (\<lambda>sev.
     (let df2 = setitem df1 ''sla_days'' (map sla_map sev) None in
     then_do (getitem df2 ''created_at'') (\<lambda>cr.
     (let df3 = setitem df2 ''age_days'' (map (age_of now) cr) None in
     then_do (getitem df3 ''age_days'') (\<lambda>age.
     then_do (getitem df3 ''sla_days'') (\<lambda>sla.
     Inr (setitem df3 ''sla_breached'' (map (\<lambda>(a, b). gt_cell a b) (zip age sla)) None)))))))))"

text \<open>
  \<open>example_data(n_courses, n_rows)\<close>, lines 27 to 65: the seeded generator, the loop, the
  frame of its rows and the derived columns. \<open>clock1\<close> and \<open>clock2\<close> are what
  \<open>pd.Timestamp.today()\<close> returns at line 29 and at line 63.
\<close>

definition example_data :: "'g generator \<Rightarrow> int \<Rightarrow> int \<Rightarrow> int \<Rightarrow> int \<Rightarrow> error + frame" where
  "example_data G n_courses n_rows clock1 clock2 =
     (let rng = default_rng G 42;
          today = normalize clock1;
          courses = courses_of n_courses
      in then_do (gen_rows G courses today [0..<nat n_rows] rng) (\<lambda>rs.
           derive clock2 (DataFrame rs)))"

text \<open>What lines 59 to 64 do to one row.\<close>

definition derive_row :: "int \<Rightarrow> row \<Rightarrow> row" where
  "derive_row now r =
     (let r1 = set_cell ''status'' (if cell_of r ''status'' \<in> set STATUSES then cell_of r ''status'' else NaN) r;
          r2 = set_cell ''sla_days'' (sla_map (cell_of r1 ''severity'')) r1;
          r3 = set_cell ''age_days'' (age_of now (cell_of r2 ''created_at'')) r2
      in set_cell ''sla_breached'' (gt_cell (cell_of r3 ''age_days'') (cell_of r3 ''sla_days'')) r3)"

text \<open>The keys of a generated row.\<close>

definition row_keys :: "string list" where
  "row_keys = [''issue_id'', ''course_name'', ''unit'', ''item_id'', ''item_type'', ''status'',
     ''severity'', ''reporter'', ''assignee'', ''created_at'', ''updated_at'', ''notes'',
     ''browser'', ''environment'']"

text \<open>
  \<open>@st.cache_data\<close>: a call whose arguments are in the cache returns the stored value
  without running the body; otherwise the body runs and a value it returns is stored (an
  exception is not).
\<close>

definition cache_data :: "('k \<Rightarrow> error + 'v) \<Rightarrow> ('k \<rightharpoonup> 'v) \<Rightarrow> 'k \<Rightarrow> (error + 'v) \<times> ('k \<rightharpoonup> 'v)" where
  "cache_data body cache k =
     (case cache k of
        Some v \<Rightarrow> (Inr v, cache)
      | None \<Rightarrow> (case body k of Inl e \<Rightarrow> (Inl e, cache) | Inr v \<Rightarrow> (Inr v, cache(k \<mapsto> v))))"

text \<open>The decorated \<open>example_data\<close>: the cache key is the pair of arguments.\<close>

definition example_data_cached ::
  "'g generator \<Rightarrow> int \<Rightarrow> int \<Rightarrow> (int \<times> int \<rightharpoonup> frame) \<Rightarrow> int \<times> int \<Rightarrow> (error + frame) \<times> (int \<times> int \<rightharpoonup> frame)" where
  "example_data_cached G clock1 clock2 cache args =
     cache_data (\<lambda>(n_courses, n_rows). example_data G n_courses n_rows clock1 clock2) cache args"

section \<open>Loading\<close>

text \<open>
  An uploaded CSV file as \<open>read_csv\<close> sees it before the dates are parsed: the names of the
  header line and, for each data line, its cells (a text, a number, a boolean, or NaN for
  an empty field), one for each name.
\<close>

record upload =
  header :: "string list"
  body :: "cell list list"

text \<open>
  A cell of a \<open>parse_dates\<close> column: \<open>to_datetime\<close> is the library's timestamp parser, a
  parameter; an empty field becomes NaT; a number or a boolean is taken as not a date.
\<close>

definition parse_cell :: "(string \<Rightarrow> int option) \<Rightarrow> cell \<Rightarrow> cell option" where
  "parse_cell to_datetime v =
     (case v of
        StrV s \<Rightarrow> map_option TimeV (to_datetime s)
      | NaN \<Rightarrow> Some NaN
      | TimeV t \<Rightarrow> Some (TimeV t)
      | _ \<Rightarrow> None)"

text \<open>
  One \<open>parse_dates\<close> column: it becomes a datetime column when every cell parses, and is
  returned unaltered, as text, when some cell does not (pandas raises nothing here).
\<close>

definition parse_dates_column :: "(string \<Rightarrow> int option) \<Rightarrow> frame \<Rightarrow> string \<Rightarrow> frame" where
  "parse_dates_column to_datetime df c =
     (let vs = map (\<lambda>r. cell_of r c) (rows df) in
      if list_all (\<lambda>v. parse_cell to_datetime v \<noteq> None) vs
      then setitem df c (map (\<lambda>v. the (parse_cell to_datetime v)) vs) None
      else df)"

text \<open>
  \<open>pd.read_csv(file, parse_dates=cols)\<close>: a name of \<open>parse_dates\<close> that is not in the header,
  as written in the file, is a ValueError that lists the missing names.
\<close>

definition read_csv :: "(string \<Rightarrow> int option) \<Rightarrow> upload \<Rightarrow> string list \<Rightarrow> error + frame" where
  "read_csv to_datetime f parse_dates =
     (let missing = filter (\<lambda>c. c \<notin> set (header f)) parse_dates in
      if missing \<noteq> [] then Inl (MissingParseDates missing)
      else Inr (foldl (parse_dates_column to_datetime)
                  \<lparr>columns = header f, rows = map (\<lambda>cs. zip (header f) cs) (body f), dtypes = []\<rparr>
                  parse_dates))"

text \<open>\<open>df.columns = [c.strip().lower() for c in df.columns]\<close>.\<close>

definition rename_columns :: "(string \<Rightarrow> string) \<Rightarrow> frame \<Rightarrow> frame" where
  "rename_columns f df =
     \<lparr>columns = map f (columns df),
      rows = map (map (\<lambda>(k, v). (f k, v))) (rows df),
      dtypes = map (\<lambda>(k, d). (f k, d)) (dtypes df)\<rparr>"

definition cat_cols :: "string list" where
  "cat_cols = [''status'', ''severity'', ''item_type'', ''course_name'', ''assignee'', ''reporter'']"

text \<open>
  The body of the loop of lines 21 to 23: \<open>astype("category")\<close> keeps a dtype that is
  categorical already and otherwise takes the sorted distinct values as categories.
\<close>

definition coerce_category :: "frame \<Rightarrow> string \<Rightarrow> frame" where
  "coerce_category df c =
     (if c \<in> set (columns df)
      then (let vs = map (\<lambda>r. cell_of r c) (rows df) in
            case map_of (dtypes df) c of
              Some d \<Rightarrow> setitem df c vs (Some d)
            | None \<Rightarrow> setitem df c vs (Some (infer_categories vs)))
      else df)"

text \<open>
  \<open>load_data(file)\<close>, lines 15 to 24. Without a file the table is \<open>example_data()\<close>, with
  its default arguments. The function is decorated with \<open>@st.cache_data\<close> as well; this is
  its body, whose results are the only values a cache hit can return.
\<close>

definition load_data ::
  "'g generator \<Rightarrow> (string \<Rightarrow> int option) \<Rightarrow> upload option \<Rightarrow> int \<Rightarrow> int \<Rightarrow> error + frame" where
  "load_data G to_datetime file clock1 clock2 =
     then_do (case file of
                Some f \<Rightarrow> read_csv to_datetime f [''created_at'', ''updated_at'']
              | None \<Rightarrow> example_data G 3 250 clock1 clock2) (\<lambda>df.
     Inr (foldl coerce_category (rename_columns (\<lambda>c. lower (strip c)) df) cat_cols))"

section \<open>Aggregations\<close>

text \<open>Sorting (key, count) entries by descending count; equal counts keep their order.\<close>

definition sort_desc :: "('a \<times> nat) list \<Rightarrow> ('a \<times> nat) list" where
  "sort_desc xs = sort_key (\<lambda>p. - int (snd p)) xs"

definition count_of :: "'a list \<Rightarrow> 'a \<Rightarrow> nat" where
  "count_of vs k = length (filter (\<lambda>v. v = k) vs)"

text \<open>
  \<open>series.value_counts()\<close>: on a categorical column every category has an entry, also with
  count zero; otherwise the distinct values have; NaN is not counted. The entries are
  sorted by descending count.
\<close>

definition value_counts :: "frame \<Rightarrow> string \<Rightarrow> error + (cell \<times> nat) list" where
  "value_counts df c =
     then_do (getitem df c) (\<lambda>vs.
       (let keys = (case map_of (dtypes df) c of
                      Some d \<Rightarrow> categories d
                    | None \<Rightarrow> uniq (filter (\<lambda>v. v \<noteq> NaN) vs))
        in Inr (sort_desc (map (\<lambda>k. (k, count_of vs k)) keys))))"

text \<open>
  The group keys of \<open>groupby(c)\<close>, in their sorted order. For a categorical column the flag
  \<open>observed\<close> of groupby decides whether categories without rows are groups; its default
  differs between pandas versions, so it is a parameter.
\<close>

definition group_keys :: "bool \<Rightarrow> frame \<Rightarrow> string \<Rightarrow> cell list \<Rightarrow> cell list" where
  "group_keys observed df c vs =
     (case map_of (dtypes df) c of
        Some d \<Rightarrow> (if observed then filter (\<lambda>k. k \<in> set vs) (categories d) else categories d)
      | None \<Rightarrow> sort_cells (uniq (filter (\<lambda>v. v \<noteq> NaN) vs)))"

text \<open>Lines 90 to 94: the open mask and the four KPI counts.\<close>

definition open_mask :: "cell list \<Rightarrow> bool list" where
  "open_mask st = isin st [StrV ''Open'', StrV ''In Progress'']"

definition kpis :: "frame \<Rightarrow> error + (nat \<times> nat \<times> nat \<times> nat)" where
  "kpis fdf =
     then_do (getitem fdf ''status'') (\<lambda>st.
       (let open_issues = length (filter id (open_mask st));
            verified = count_of st (StrV ''Verified'');
            closed = count_of st (StrV ''Closed'')
        in then_do (getitem fdf ''severity'') (\<lambda>sev.
             Inr (open_issues, verified, closed,
                  length (filter (\<lambda>(v, m). v = StrV ''Critical'' \<and> m) (zip sev (open_mask st)))))))"

text \<open>Line 103: \<open>int((fdf["sla_breached"] & open_mask).sum())\<close>.\<close>

definition sla_breaches :: "frame \<Rightarrow> error + nat" where
  "sla_breaches fdf =
     then_do (getitem fdf ''status'') (\<lambda>st.
     then_do (getitem fdf ''sla_breached'') (\<lambda>br.
       Inr (length (filter (\<lambda>(b, m). b = BoolV True \<and> m) (zip br (open_mask st))))))"

text \<open>
  The mean of a boolean column as an exact fraction, NaN (None) for no values, and
  \<open>round(1)\<close> to one decimal, a tie going to the even digit. The script computes both in
  floating point; the rounding of floats is not modelled.
\<close>

definition mean_bool :: "cell list \<Rightarrow> rat option" where
  "mean_bool vs =
     (let bs = filter (\<lambda>v. v = BoolV True \<or> v = BoolV False) vs in
      if bs = [] then None
      else Some (of_nat (count_of bs (BoolV True)) / of_nat (length bs)))"

definition round1 :: "rat \<Rightarrow> rat" where
  "round1 x =
     (let y = x * 10; f = \<lfloor>y\<rfloor>; d = y - of_int f in
      of_int (if d < 1 / 2 then f else if 1 / 2 < d then f + 1 else if even f then f else f + 1) / 10)"

text \<open>Lines 106 and 107: severity, mean of \<open>sla_breached\<close>, \<open>breach_rate\<close>, for the open rows.\<close>

definition sla_by_sev :: "bool \<Rightarrow> frame \<Rightarrow> error + (cell \<times> rat option \<times> rat option) list" where
  "sla_by_sev observed fdf =
     then_do (getitem fdf ''status'') (\<lambda>st.
       (let odf = take_mask fdf (open_mask st) in
        then_do (getitem odf ''severity'') (\<lambda>sev.
        then_do (getitem odf ''sla_breached'') (\<lambda>br.
          Inr (map (\<lambda>k. (let m = mean_bool (map snd (filter (\<lambda>(v, b). v = k) (zip sev br)))
                         in (k, m, map_option (\<lambda>x. round1 (x * 100)) m)))
                 (group_keys observed odf ''severity'' sev))))))"

text \<open>
  Lines 121 to 124: rows per calendar date of \<open>created_at\<close>, the dates ascending. A date is
  its day number; the \<open>.dt\<close> accessor needs a datetime column.
\<close>

definition created_daily :: "frame \<Rightarrow> error + (int \<times> nat) list" where
  "created_daily fdf =
     then_do (getitem fdf ''created_at'') (\<lambda>cr.
       if list_all (\<lambda>v. case v of TimeV t \<Rightarrow> True | NaN \<Rightarrow> True | _ \<Rightarrow> False) cr
       then (let ds = concat (map (\<lambda>v. case v of TimeV t \<Rightarrow> [days t] | _ \<Rightarrow> []) cr)
             in Inr (map (\<lambda>d. (d, count_of ds d)) (sort (uniq ds))))
       else Inl NotDatetimeLike)"

text \<open>Line 131: \<open>status_counts\<close>, the columns \<open>status\<close> and \<open>count\<close>.\<close>

definition status_counts :: "frame \<Rightarrow> error + (cell \<times> nat) list" where
  "status_counts fdf = value_counts fdf ''status''"

text \<open>
  Line 133: the \<open>sort\<close> list handed to the chart's x axis,
  \<open>list(df["status"].cat.categories)\<close>, read from the unfiltered table.
\<close>

definition status_bar_sort :: "frame \<Rightarrow> error + cell list" where
  "status_bar_sort df =
     then_do (getitem df ''status'') (\<lambda>st.
       case map_of (dtypes df) ''status'' of
         Some d \<Rightarrow> Inr (categories d)
       | None \<Rightarrow> Inl NotCategorical)"

text \<open>
  Line 140: \<open>sev_course\<close>, the size of each (course, severity) group. When a grouping
  column is categorical and \<open>observed\<close> is off, every pair of group keys is a group;
  otherwise only the pairs that have rows are.
\<close>

definition sev_course :: "bool \<Rightarrow> frame \<Rightarrow> error + ((cell \<times> cell) \<times> nat) list" where
  "sev_course observed fdf =
     then_do (getitem fdf ''course_name'') (\<lambda>cs.
     then_do (getitem fdf ''severity'') (\<lambda>sv.
       (let counted = map (\<lambda>k. (k, count_of (zip cs sv) k))
                        (List.product (group_keys observed fdf ''course_name'' cs)
                                      (group_keys observed fdf ''severity'' sv))
        in Inr (if \<not> observed \<and> (map_of (dtypes fdf) ''course_name'' \<noteq> None
                                   \<or> map_of (dtypes fdf) ''severity'' \<noteq> None)
                then counted
                else filter (\<lambda>(k, n). 0 < n) counted))))"



text \<open>
  Line 150: \<open>pd.cut\<close> with the bin edges -1, 2, 5, 10, 20, 999 and the five labels; a bin
  excludes its left edge and includes its right one, a value in no bin becomes NaN. The
  labels are UTF-8 text: the first starts with the sign "less than or equal", the ranges
  are written with an en dash.
\<close>

definition age_edges :: "int list" where
  "age_edges = [-1, 2, 5, 10, 20, 999]"

definition en_dash :: string where
  "en_dash = [char_of (226::nat), char_of (128::nat), char_of (147::nat)]"

definition age_labels :: "cell list" where
  "age_labels =
     [StrV ([char_of (226::nat), char_of (137::nat), char_of (164::nat)] @ ''2d''),
      StrV (''3'' @ en_dash @ ''5d''),
      StrV (''6'' @ en_dash @ ''10d''),
      StrV (''11'' @ en_dash @ ''20d''),
      StrV ''>20d'']"

fun cut_value :: "int list \<Rightarrow> cell list \<Rightarrow> int \<Rightarrow> cell" where
  "cut_value (lo # hi # es) (l # ls) v = (if lo < v \<and> v \<le> hi then l else cut_value (hi # es) ls v)"
| "cut_value _ _ v = NaN"

fun cut :: "int list \<Rightarrow> cell list \<Rightarrow> cell list \<Rightarrow> error + cell list" where
  "cut es ls [] = Inr []"
| "cut es ls (IntV v # vs) = then_do (cut es ls vs) (\<lambda>bs. Inr (cut_value es ls v # bs))"
| "cut es ls (NaN # vs) = then_do (cut es ls vs) (\<lambda>bs. Inr (NaN # bs))"
| "cut es ls (_ # vs) = Inl TypeError"

text \<open>
  Lines 150 to 152: \<open>age_dist\<close>. \<open>DataFrame.value_counts\<close> groups with \<open>observed=False\<close>, so
  each label has an entry; the \<open>rename\<close> of line 152 names no column of the result and
  changes nothing.
\<close>

definition age_dist :: "frame \<Rightarrow> error + (cell \<times> nat) list" where
  "age_dist fdf =
     then_do (getitem fdf ''age_days'') (\<lambda>ages.
     then_do (cut age_edges age_labels ages) (\<lambda>age_bins.
       Inr (sort_desc (map (\<lambda>l. (l, count_of age_bins l)) age_labels))))"

text \<open>The six aggregates of one run, computed in the order of the script.\<close>

record aggregates =
  agg_kpis :: "nat \<times> nat \<times> nat \<times> nat"
  agg_sla_breaches :: nat
  agg_sla_by_sev :: "(cell \<times> rat option \<times> rat option) list"
  agg_created_daily :: "(int \<times> nat) list"
  agg_status_counts :: "(cell \<times> nat) list"
  agg_sev_course :: "((cell \<times> cell) \<times> nat) list"
  agg_age_dist :: "(cell \<times> nat) list"

definition aggregate_all :: "bool \<Rightarrow> frame \<Rightarrow> error + aggregates" where
  "aggregate_all observed fdf =
     then_do (kpis fdf) (\<lambda>k.
     then_do (sla_breaches fdf) (\<lambda>b.
     then_do (sla_by_sev observed fdf) (\<lambda>s.
     then_do (created_daily fdf) (\<lambda>d.
     then_do (status_counts fdf) (\<lambda>sc.
     then_do (sev_course observed fdf) (\<lambda>sv.
     then_do (age_dist fdf) (\<lambda>a.
       Inr \<lparr>agg_kpis = k, agg_sla_breaches = b, agg_sla_by_sev = s, agg_created_daily = d,
            agg_status_counts = sc, agg_sev_course = sv, agg_age_dist = a\<rparr>)))))))"

text \<open>One run of the script: load, filter, aggregate.\<close>

definition dashboard ::
  "'g generator \<Rightarrow> (string \<Rightarrow> int option) \<Rightarrow> bool \<Rightarrow> upload option \<Rightarrow> int \<Rightarrow> int \<Rightarrow> selections
     \<Rightarrow> error + aggregates" where
  "dashboard G to_datetime observed file clock1 clock2 s =
     then_do (load_data G to_datetime file clock1 clock2) (\<lambda>df.
     then_do (apply_filters df s) (\<lambda>fdf. aggregate_all observed fdf))"

section \<open>Predicates used in the proofs\<close>

text \<open>
  A row as the loop of \<open>example_data\<close> builds it when the generator keeps its ranges: the
  fourteen keys, a severity and a status of the lists, a creation time a whole number of
  days (between 0 and 39) before \<open>today\<close>.
\<close>

definition gen_row_ok :: "int \<Rightarrow> row \<Rightarrow> bool" where
  "gen_row_ok today r =
     (map fst r = row_keys \<and> cell_of r ''severity'' \<in> set severities \<and>
      cell_of r ''status'' \<in> set STATUSES \<and>
      (\<exists>d. 0 \<le> d \<and> d < 40 \<and> cell_of r ''created_at'' = TimeV (today - timedelta d)))"

text \<open>The column names of the generated table.\<close>

definition final_keys :: "string set" where
  "final_keys = set row_keys \<union> {''sla_days'', ''age_days'', ''sla_breached''}"

text \<open>What holds of a row of the generated table.\<close>

definition derived_ok :: "row \<Rightarrow> bool" where
  "derived_ok r =
     (cell_of r ''status'' \<in> set STATUSES \<and>
      (\<exists>a s. cell_of r ''age_days'' = IntV a \<and> cell_of r ''sla_days'' = IntV s \<and>
             cell_of r ''sla_days'' = sla_map (cell_of r ''severity'') \<and>
             cell_of r ''severity'' \<in> set severities \<and>
             cell_of r ''sla_breached'' = BoolV (s < a)))"

text \<open>Two rows that read the same at every column name.\<close>

definition same_cells :: "row \<Rightarrow> row \<Rightarrow> bool" where
  "same_cells r' r = (\<forall>c. cell_of r' c = cell_of r c)"

text \<open>
  A generator to run the model on: its state is a counter, each draw is the counter
  reduced into the requested range. It stands in for numpy's generator, which the
  theorems do not depend on.
\<close>

definition counter_rng :: "nat generator" where
  "counter_rng =
     \<lparr>default_rng = (\<lambda>seed. seed),
      integers = (\<lambda>g lo hi. (lo + int g mod (hi - lo), g + 1)),
      choice_index = (\<lambda>g n p. (g mod n, g + 1))\<rparr>"

text \<open>A timestamp cell that lies on a midnight.\<close>

definition aligned :: "cell \<Rightarrow> bool" where
  "aligned v = (case v of TimeV t \<Rightarrow> NS_PER_DAY dvd t | _ \<Rightarrow> True)"

section \<open>Sample tables\<close>

text \<open>Small tables and selections on which the theorems below are run.\<close>

definition issue_a :: row where
  "issue_a = [(''issue_id'', StrV ''ISSUE-1000''), (''course_name'', StrV ''Course 1''),
     (''unit'', StrV ''Unit 2''), (''item_id'', StrV ''ITEM-17''), (''status'', StrV ''Closed''),
     (''severity'', StrV ''Critical''), (''assignee'', StrV ''Alex''), (''notes'', StrV ''typo'')]"

definition issue_b :: row where
  "issue_b = [(''issue_id'', StrV ''ISSUE-1001''), (''course_name'', StrV ''Course 2''),
     (''unit'', StrV ''Unit 1''), (''item_id'', StrV ''ITEM-4''), (''status'', StrV ''Open''),
     (''severity'', StrV ''Low''), (''assignee'', StrV ''Sam''), (''notes'', StrV ''Broken link'')]"

definition issue_c :: row where
  "issue_c = [(''issue_id'', StrV ''ISSUE-1002''), (''course_name'', StrV ''Course 1''),
     (''unit'', StrV ''Unit 1''), (''item_id'', StrV ''ITEM-9''), (''status'', StrV ''Closed''),
     (''severity'', StrV ''High''), (''assignee'', StrV ''Sam''), (''notes'', StrV ''layout'')]"

definition three_issues :: frame where
  "three_issues =
     \<lparr>columns = [''issue_id'', ''course_name'', ''unit'', ''item_id'', ''status'', ''severity'',
                 ''assignee'', ''notes''],
      rows = [issue_a, issue_b, issue_c],
      dtypes = [(''status'', statuses)]\<rparr>"

definition course_1_by_sam :: selections where
  "course_1_by_sam =
     \<lparr>sel_course = [StrV ''Course 1''], sel_unit = [], sel_status = [], sel_severity = [],
      sel_assignee = [StrV ''Sam'', StrV ''Kim'']\<rparr>"

text \<open>An upload with the eleven required columns and one issue.\<close>

definition required_upload :: upload where
  "required_upload =
     \<lparr>header = [''issue_id'', ''course_name'', ''unit'', ''item_id'', ''item_type'', ''status'',
                ''severity'', ''reporter'', ''assignee'', ''created_at'', ''updated_at''],
      body = [[StrV ''ISSUE-1'', StrV ''Course 1'', StrV ''Unit 1'', StrV ''ITEM-1'', StrV ''Quiz'',
               StrV ''Open'', StrV ''Critical'', StrV ''QA'', StrV ''Alex'',
               StrV ''2024-01-01'', StrV ''2024-01-02'']]\<rparr>"

text \<open>An upload without most required columns, whose \<open>created_at\<close> is no date.\<close>

definition no_status_upload :: upload where
  "no_status_upload =
     \<lparr>header = [''issue_id'', ''severity'', ''created_at'', ''updated_at''],
      body = [[StrV ''ISSUE-1'', StrV ''Critical'', StrV ''soon'', StrV ''2024-01-02'']]\<rparr>"

text \<open>Nothing selected in the sidebar.\<close>

definition no_selection :: selections where
  "no_selection =
     \<lparr>sel_course = [], sel_unit = [], sel_status = [], sel_severity = [], sel_assignee = []\<rparr>"

text \<open>
  A table whose status column is the ordered five-category column of the generated
  table: the column exists, has the dtype \<open>statuses\<close>, and holds no other value.
\<close>

definition status_typed :: "frame \<Rightarrow> bool" where
  "status_typed df =
     (''status'' \<in> set (columns df) \<and> map_of (dtypes df) ''status'' = Some statuses \<and>
      (\<forall>r\<in>set (rows df). cell_of r ''status'' \<in> set STATUSES))"

text \<open>A table with one issue that is a thousand days old.\<close>

definition stale_issue :: frame where
  "stale_issue =
     \<lparr>columns = [''issue_id'', ''age_days''],
      rows = [[(''issue_id'', StrV ''ISSUE-7''), (''age_days'', IntV 1000)]],
      dtypes = []\<rparr>"



section \<open>Properties of the filters\<close>

lemma take_mask_map: "map fst (filter snd (zip xs (map p xs))) = filter p xs"
  by (induction xs) auto

lemma rows_take_isin:
  "rows (take_mask df (isin (map (\<lambda>r. cell_of r c) (rows df)) sel))
     = filter (\<lambda>r. cell_of r c \<in> set sel) (rows df)"
proof -
  have "isin (map (\<lambda>r. cell_of r c) (rows df)) sel = map (\<lambda>r. cell_of r c \<in> set sel) (rows df)"
    by (simp add: isin_def)
  then show ?thesis
    by (simp add: take_mask_def take_mask_map)
qed

lemma filter_by_rows:
  assumes "filter_by c sel df = Inr fdf"
  shows "rows fdf = filter (\<lambda>r. sel = [] \<or> cell_of r c \<in> set sel) (rows df)"
    and "columns fdf = columns df" and "dtypes fdf = dtypes df"
  using assms rows_take_isin [of df c sel]
  by (auto simp: filter_by_def getitem_def take_mask_def split: if_splits)

lemma filter_by_ok:
  "sel = [] \<or> c \<in> set (columns df) \<Longrightarrow> \<exists>fdf. filter_by c sel df = Inr fdf"
  by (auto simp: filter_by_def getitem_def)


lemma then_do_Inr: "then_do m f = Inr y \<longleftrightarrow> (\<exists>x. m = Inr x \<and> f x = Inr y)"
  by (cases m) (auto simp: then_do_def)

lemma apply_filters_steps:
  assumes "apply_filters df s = Inr fdf"
  obtains f1 f2 f3 f4 where
    "filter_by ''course_name'' (sel_course s) df = Inr f1"
    "filter_by ''unit'' (sel_unit s) f1 = Inr f2"
    "filter_by ''status'' (sel_status s) f2 = Inr f3"
    "filter_by ''severity'' (sel_severity s) f3 = Inr f4"
    "filter_by ''assignee'' (sel_assignee s) f4 = Inr fdf"
  using assms unfolding apply_filters_def then_do_Inr by blast

lemma apply_filters_rows:
  assumes "apply_filters df s = Inr fdf"
  shows "rows fdf = filter (passes s) (rows df)"
    and "columns fdf = columns df" and "dtypes fdf = dtypes df"
proof -
  from assms obtain f1 f2 f3 f4 where st:
    "filter_by ''course_name'' (sel_course s) df = Inr f1"
    "filter_by ''unit'' (sel_unit s) f1 = Inr f2"
    "filter_by ''status'' (sel_status s) f2 = Inr f3"
    "filter_by ''severity'' (sel_severity s) f3 = Inr f4"
    "filter_by ''assignee'' (sel_assignee s) f4 = Inr fdf"
    by (rule apply_filters_steps)
  show "columns fdf = columns df"
    using st by (simp add: filter_by_rows(2))
  show "dtypes fdf = dtypes df"
    using st by (simp add: filter_by_rows(3))
  have "rows fdf = filter (\<lambda>r. sel_assignee s = [] \<or> cell_of r ''assignee'' \<in> set (sel_assignee s))
          (filter (\<lambda>r. sel_severity s = [] \<or> cell_of r ''severity'' \<in> set (sel_severity s))
          (filter (\<lambda>r. sel_status s = [] \<or> cell_of r ''status'' \<in> set (sel_status s))
          (filter (\<lambda>r. sel_unit s = [] \<or> cell_of r ''unit'' \<in> set (sel_unit s))
          (filter (\<lambda>r. sel_course s = [] \<or> cell_of r ''course_name'' \<in> set (sel_course s))
             (rows df)))))"
    using st by (simp add: filter_by_rows(1))
  also have "\<dots> = filter (passes s) (rows df)"
    by (induction "rows df") (auto simp: passes_def filter_fields_def)
  finally show "rows fdf = filter (passes s) (rows df)" .
qed

lemma apply_filters_ok:
  assumes "list_all (\<lambda>(c, sel). sel = [] \<or> c \<in> set (columns df)) (filter_fields s)"
  shows "\<exists>fdf. apply_filters df s = Inr fdf"
proof -
  from assms have c:
    "sel_course s = [] \<or> ''course_name'' \<in> set (columns df)"
    "sel_unit s = [] \<or> ''unit'' \<in> set (columns df)"
    "sel_status s = [] \<or> ''status'' \<in> set (columns df)"
    "sel_severity s = [] \<or> ''severity'' \<in> set (columns df)"
    "sel_assignee s = [] \<or> ''assignee'' \<in> set (columns df)"
    by (simp_all add: filter_fields_def)
  from filter_by_ok [OF c(1)] obtain f1 where 1: "filter_by ''course_name'' (sel_course s) df = Inr f1" ..
  then have k1: "columns f1 = columns df" by (rule filter_by_rows(2))
  from filter_by_ok [of "sel_unit s" "''unit''" f1] c(2) k1
  obtain f2 where 2: "filter_by ''unit'' (sel_unit s) f1 = Inr f2" by auto
  then have k2: "columns f2 = columns df" using k1 by (simp add: filter_by_rows(2))
  from filter_by_ok [of "sel_status s" "''status''" f2] c(3) k2
  obtain f3 where 3: "filter_by ''status'' (sel_status s) f2 = Inr f3" by auto
  then have k3: "columns f3 = columns df" using k2 by (simp add: filter_by_rows(2))
  from filter_by_ok [of "sel_severity s" "''severity''" f3] c(4) k3
  obtain f4 where 4: "filter_by ''severity'' (sel_severity s) f3 = Inr f4" by auto
  then have k4: "columns f4 = columns df" using k3 by (simp add: filter_by_rows(2))
  from filter_by_ok [of "sel_assignee s" "''assignee''" f4] c(5) k4
  obtain f5 where 5: "filter_by ''assignee'' (sel_assignee s) f4 = Inr f5" by auto
  show ?thesis
    unfolding apply_filters_def then_do_Inr using 1 2 3 4 5 by blast
qed



lemma apply_rows_length: "apply_rows f rs = Inr bs \<Longrightarrow> length bs = length rs"
  by (induction rs arbitrary: bs) (auto split: sum.splits)





lemma issue_cells:
  "cell_of issue_a ''course_name'' = StrV ''Course 1''"
  "cell_of issue_b ''course_name'' = StrV ''Course 2''"
  "cell_of issue_c ''course_name'' = StrV ''Course 1''"
  "cell_of issue_a ''assignee'' = StrV ''Alex''"
  "cell_of issue_b ''assignee'' = StrV ''Sam''"
  "cell_of issue_c ''assignee'' = StrV ''Sam''"
  by (simp_all add: cell_of_def issue_a_def issue_b_def issue_c_def)

text \<open>
  Claim C2. Whenever the filter lines return a table, it has at most as many rows as the
  input, its rows are exactly the input rows that pass, every one of its rows has, in each
  filtered column whose selection is not empty, a value of that selection, and when all
  selections are empty the table is returned unchanged. The lines do return a table when
  every column with a non-empty selection exists.
\<close>

theorem apply_filters_members:
  "(list_all (\<lambda>(c, sel). sel = [] \<or> c \<in> set (columns df)) (filter_fields s)
      \<longrightarrow> (\<exists>fdf. apply_filters df s = Inr fdf)) \<and>
   (\<forall>fdf. apply_filters df s = Inr fdf \<longrightarrow>
      length (rows fdf) \<le> length (rows df) \<and>
      rows fdf = filter (passes s) (rows df) \<and>
      (\<forall>r\<in>set (rows fdf). list_all (\<lambda>(c, sel). sel \<noteq> [] \<longrightarrow> cell_of r c \<in> set sel) (filter_fields s)) \<and>
      (list_all (\<lambda>(c, sel). sel = []) (filter_fields s) \<longrightarrow> fdf = df))"
proof (intro conjI impI allI)
  assume "list_all (\<lambda>(c, sel). sel = [] \<or> c \<in> set (columns df)) (filter_fields s)"
  then show "\<exists>fdf. apply_filters df s = Inr fdf" by (rule apply_filters_ok)
next
  fix fdf assume a: "apply_filters df s = Inr fdf"
  then have r: "rows fdf = filter (passes s) (rows df)" by (rule apply_filters_rows(1))
  show "rows fdf = filter (passes s) (rows df)" by (rule r)
  show "length (rows fdf) \<le> length (rows df)" by (simp add: r)
  show "\<forall>r\<in>set (rows fdf). list_all (\<lambda>(c, sel). sel \<noteq> [] \<longrightarrow> cell_of r c \<in> set sel) (filter_fields s)"
    by (auto simp: r passes_def filter_fields_def)
  assume e: "list_all (\<lambda>(c, sel). sel = []) (filter_fields s)"
  then have "filter (passes s) (rows df) = rows df"
    by (auto simp: passes_def filter_fields_def)
  with r apply_filters_rows(2,3) [OF a] show "fdf = df" by simp
qed

theorem apply_filters_members_witness:
  "apply_filters three_issues course_1_by_sam = Inr (three_issues\<lparr>rows := [issue_c]\<rparr>)"
proof -
  have c: "list_all (\<lambda>(c, sel). sel = [] \<or> c \<in> set (columns three_issues))
             (filter_fields course_1_by_sam)"
    by (simp add: filter_fields_def course_1_by_sam_def three_issues_def)
  with apply_filters_members [of three_issues course_1_by_sam]
  obtain fdf where f: "apply_filters three_issues course_1_by_sam = Inr fdf"
    and r: "rows fdf = filter (passes course_1_by_sam) (rows three_issues)"
    by blast
  have "filter (passes course_1_by_sam) (rows three_issues) = [issue_c]"
    by (simp add: passes_def filter_fields_def course_1_by_sam_def three_issues_def issue_cells)
  moreover have "columns fdf = columns three_issues" "dtypes fdf = dtypes three_issues"
    using f by (simp_all add: apply_filters_rows)
  ultimately have "fdf = three_issues\<lparr>rows := [issue_c]\<rparr>"
    using r by simp
  with f show ?thesis by simp
qed



lemma cell_of_set_cell:
  "cell_of (set_cell c v r) c' = (if c' = c then v else cell_of r c')"
proof (cases "c \<in> fst ` set r")
  case True
  have "map_of (map (\<lambda>(k, x). if k = c then (k, v) else (k, x)) r) c'
        = (if c' = c then (if c \<in> fst ` set r then Some v else None) else map_of r c')"
    by (induction r) force+
  with True show ?thesis by (simp add: set_cell_def cell_of_def)
next
  case False
  then have "map_of r c = None" by (simp add: map_of_eq_None_iff)
  with False show ?thesis
    by (auto simp: set_cell_def cell_of_def map_add_def split: option.splits)
qed

lemma map_of_drop_key:
  "map_of (filter (\<lambda>(k, d). k \<noteq> c) ds) k' = (if k' = c then None else map_of ds k')"
  by (induction ds) auto

lemma map_of_dtypes_setitem:
  "map_of (dtypes (setitem df c vs dt)) k = (if k = c then dt else map_of (dtypes df) k)"
  by (cases dt) (auto simp: setitem_def map_of_drop_key map_add_def split: option.splits)

lemma keys_dtypes_setitem_None:
  "fst ` set (dtypes (setitem df c vs None)) \<subseteq> fst ` set (dtypes df)"
  by (auto simp: setitem_def)

lemma keys_dtypes_setitem_Some:
  "fst ` set (dtypes (setitem df c vs (Some d))) \<subseteq> insert c (fst ` set (dtypes df))"
  by (auto simp: setitem_def)

lemma zip_map_same: "zip (map f xs) xs = map (\<lambda>x. (f x, x)) xs"
  by (induction xs) auto

lemma zip_map_both: "zip (map f xs) (map g xs) = map (\<lambda>x. (f x, g x)) xs"
  by (induction xs) auto

lemma rows_setitem_map:
  "rows (setitem df c (map h (rows df)) dt) = map (\<lambda>r. set_cell c (h r) r) (rows df)"
  by (simp add: setitem_def zip_map_same)

lemma columns_setitem:
  "columns (setitem df c vs dt) = (if c \<in> set (columns df) then columns df else columns df @ [c])"
  by (simp add: setitem_def)

lemma then_do_Inr2: "then_do (Inr x) f = f x"
  by (simp add: then_do_def)

lemma getitem_Inr: "c \<in> set (columns df) \<Longrightarrow> getitem df c = Inr (map (\<lambda>r. cell_of r c) (rows df))"
  by (simp add: getitem_def)

lemma getitem_Inl: "c \<notin> set (columns df) \<Longrightarrow> getitem df c = Inl (KeyError c)"
  by (simp add: getitem_def)

lemma derive_rows:
  assumes "''status'' \<in> set (columns df)" "''severity'' \<in> set (columns df)"
    "''created_at'' \<in> set (columns df)"
  shows "\<exists>df'. derive now df = Inr df' \<and> rows df' = map (derive_row now) (rows df)
     \<and> set (columns df') = set (columns df) \<union> {''sla_days'', ''age_days'', ''sla_breached''}
     \<and> map_of (dtypes df') ''status'' = Some statuses
     \<and> fst ` set (dtypes df') \<subseteq> insert ''status'' (fst ` set (dtypes df))"
proof -
  let ?st = "\<lambda>r. if cell_of r ''status'' \<in> set STATUSES then cell_of r ''status'' else NaN"
  define df1 where "df1 = setitem df ''status'' (astype statuses (map (\<lambda>r. cell_of r ''status'') (rows df))) (Some statuses)"
  have a1: "astype statuses (map (\<lambda>r. cell_of r ''status'') (rows df)) = map ?st (rows df)"
    by (simp add: astype_def statuses_def)
  have r1: "rows df1 = map (\<lambda>r. set_cell ''status'' (?st r) r) (rows df)"
    unfolding df1_def a1 by (rule rows_setitem_map)
  have c1: "columns df1 = columns df"
    using assms by (simp add: df1_def columns_setitem)
  have d1: "map_of (dtypes df1) ''status'' = Some statuses"
    by (simp add: df1_def map_of_dtypes_setitem)
  define df2 where "df2 = setitem df1 ''sla_days'' (map sla_map (map (\<lambda>r. cell_of r ''severity'') (rows df1))) None"
  have r2: "rows df2 = map (\<lambda>r. set_cell ''sla_days'' (sla_map (cell_of r ''severity'')) r) (rows df1)"
    unfolding df2_def using rows_setitem_map [of df1 "''sla_days''" "\<lambda>r. sla_map (cell_of r ''severity'')" None]
    by (simp add: comp_def)
  have c2: "set (columns df2) = set (columns df) \<union> {''sla_days''}"
    by (auto simp: df2_def columns_setitem c1)
  have d2: "map_of (dtypes df2) ''status'' = Some statuses"
    using d1 by (simp add: df2_def map_of_dtypes_setitem)
  have g1: "getitem df ''status'' = Inr (map (\<lambda>r. cell_of r ''status'') (rows df))"
    using assms by (simp add: getitem_Inr)
  have g2: "getitem df1 ''severity'' = Inr (map (\<lambda>r. cell_of r ''severity'') (rows df1))"
    using assms c1 by (simp add: getitem_Inr)
  define df3 where "df3 = setitem df2 ''age_days'' (map (age_of now) (map (\<lambda>r. cell_of r ''created_at'') (rows df2))) None"
  have g3: "getitem df2 ''created_at'' = Inr (map (\<lambda>r. cell_of r ''created_at'') (rows df2))"
    using assms c2 by (simp add: getitem_Inr)
  have r3: "rows df3 = map (\<lambda>r. set_cell ''age_days'' (age_of now (cell_of r ''created_at'')) r) (rows df2)"
    unfolding df3_def using rows_setitem_map [of df2 "''age_days''" "\<lambda>r. age_of now (cell_of r ''created_at'')" None]
    by (simp add: comp_def)
  have c3: "set (columns df3) = set (columns df) \<union> {''sla_days'', ''age_days''}"
    using c2 by (auto simp: df3_def columns_setitem)
  have d3: "map_of (dtypes df3) ''status'' = Some statuses"
    using d2 by (simp add: df3_def map_of_dtypes_setitem)
  have g4: "getitem df3 ''age_days'' = Inr (map (\<lambda>r. cell_of r ''age_days'') (rows df3))"
    "getitem df3 ''sla_days'' = Inr (map (\<lambda>r. cell_of r ''sla_days'') (rows df3))"
    using c3 by (simp_all add: getitem_Inr)
  define df4 where "df4 = setitem df3 ''sla_breached''
     (map (\<lambda>(a, b). gt_cell a b) (zip (map (\<lambda>r. cell_of r ''age_days'') (rows df3)) (map (\<lambda>r. cell_of r ''sla_days'') (rows df3)))) None"
  have r4: "rows df4 = map (\<lambda>r. set_cell ''sla_breached'' (gt_cell (cell_of r ''age_days'') (cell_of r ''sla_days'')) r) (rows df3)"
    unfolding df4_def using rows_setitem_map [of df3 "''sla_breached''" "\<lambda>r. gt_cell (cell_of r ''age_days'') (cell_of r ''sla_days'')" None]
    by (simp add: zip_map_both comp_def)
  have c4: "set (columns df4) = set (columns df) \<union> {''sla_days'', ''age_days'', ''sla_breached''}"
    using c3 by (auto simp: df4_def columns_setitem)
  have d4: "map_of (dtypes df4) ''status'' = Some statuses"
    using d3 by (simp add: df4_def map_of_dtypes_setitem)
  have k1: "fst ` set (dtypes df1) \<subseteq> insert ''status'' (fst ` set (dtypes df))"
    unfolding df1_def by (rule keys_dtypes_setitem_Some)
  have k2: "fst ` set (dtypes df2) \<subseteq> fst ` set (dtypes df1)"
    unfolding df2_def by (rule keys_dtypes_setitem_None)
  have k3: "fst ` set (dtypes df3) \<subseteq> fst ` set (dtypes df2)"
    unfolding df3_def by (rule keys_dtypes_setitem_None)
  have k4: "fst ` set (dtypes df4) \<subseteq> fst ` set (dtypes df3)"
    unfolding df4_def by (rule keys_dtypes_setitem_None)
  have k: "fst ` set (dtypes df4) \<subseteq> insert ''status'' (fst ` set (dtypes df))"
    using subset_trans [OF k4 subset_trans [OF k3 subset_trans [OF k2 k1]]] .
  have "derive now df = Inr df4"
    unfolding derive_def g1 then_do_Inr2 Let_def df1_def [symmetric] g2 df2_def [symmetric]
      g3 df3_def [symmetric] g4 df4_def [symmetric] ..
  moreover have "rows df4 = map (derive_row now) (rows df)"
    by (simp add: r4 r3 r2 r1 derive_row_def Let_def comp_def)
  ultimately show ?thesis using c4 d4 k by blast
qed

lemma derive_row_cells:
  "cell_of (derive_row now r) ''sla_days'' = sla_map (cell_of r ''severity'')"
  "cell_of (derive_row now r) ''age_days'' = age_of now (cell_of r ''created_at'')"
  "cell_of (derive_row now r) ''sla_breached''
     = gt_cell (age_of now (cell_of r ''created_at'')) (sla_map (cell_of r ''severity''))"
  "cell_of (derive_row now r) ''status''
     = (if cell_of r ''status'' \<in> set STATUSES then cell_of r ''status'' else NaN)"
  by (simp_all add: derive_row_def Let_def cell_of_set_cell)

lemma derive_row_other:
  "c \<notin> {''status'', ''sla_days'', ''age_days'', ''sla_breached''}
     \<Longrightarrow> cell_of (derive_row now r) c = cell_of r c"
  by (simp add: derive_row_def Let_def cell_of_set_cell)

lemma choice_eq:
  "xs \<noteq> [] \<Longrightarrow> choice G g xs p
     = Inr (xs ! fst (choice_index G g (length xs) p), snd (choice_index G g (length xs) p))"
  by (simp add: choice_def split_def Let_def)

lemma choice_mem:
  "rng_ok G \<Longrightarrow> xs \<noteq> [] \<Longrightarrow> xs ! fst (choice_index G g (length xs) p) \<in> set xs"
  by (simp add: rng_ok_def)

lemma units_nonempty: "units \<noteq> []"
  by (simp add: units_def)

lemma make_row_ok:
  assumes "rng_ok G" "courses \<noteq> []"
  shows "\<exists>r g'. make_row G courses today i g = Inr (r, g') \<and> gen_row_ok today r"
proof -
  have sev: "\<And>g p. severities ! fst (choice_index G g (length severities) p) \<in> set severities"
    using assms(1) by (rule choice_mem) (simp add: severities_def)
  have st: "\<And>g p. STATUSES ! fst (choice_index G g (length STATUSES) p) \<in> set STATUSES"
    using assms(1) by (rule choice_mem) (simp add: STATUSES_def)
  have d: "\<And>g. 0 \<le> fst (integers G g 0 40) \<and> fst (integers G g 0 40) < 40"
    using assms(1) by (simp add: rng_ok_def)
  have ne: "severities \<noteq> []" "STATUSES \<noteq> []" "item_types \<noteq> []"
    by (simp_all add: severities_def STATUSES_def item_types_def)
  have ex: "\<exists>d\<ge>0. d < 40 \<and> timedelta (fst (integers G g 0 40)) = timedelta d"
    using d by blast
  show ?thesis
    using sev st ex
    by (simp add: make_row_def choice_eq assms(2) units_nonempty ne statuses_def split_def Let_def
        then_do_def gen_row_ok_def row_keys_def cell_of_def)
qed

lemma gen_rows_ok:
  assumes "rng_ok G" "courses \<noteq> []"
  shows "\<exists>rs. gen_rows G courses today is g = Inr rs \<and> length rs = length is
     \<and> (\<forall>r\<in>set rs. gen_row_ok today r)"
proof (induction "is" arbitrary: g)
  case Nil
  then show ?case by simp
next
  case (Cons i "is")
  from make_row_ok [OF assms] obtain r g' where
    r: "make_row G courses today (int i) g = Inr (r, g')" "gen_row_ok today r" by blast
  from Cons [of g'] obtain rs where
    rs: "gen_rows G courses today is g' = Inr rs" "length rs = length is"
      "\<forall>r\<in>set rs. gen_row_ok today r" by blast
  show ?case using r rs by (simp add: then_do_def)
qed

lemma set_uniq: "set (uniq xs) = set xs"
  by (induction xs) auto

lemma cell_of_tabulate:
  "cell_of (map (\<lambda>c. (c, f c)) cols) c' = (if c' \<in> set cols then f c' else NaN)"
  by (induction cols) (auto simp: cell_of_def)

lemma cell_of_absent: "c \<notin> fst ` set r \<Longrightarrow> cell_of r c = NaN"
proof -
  assume "c \<notin> fst ` set r"
  then have "map_of r c = None" by (simp add: map_of_eq_None_iff)
  then show ?thesis by (simp add: cell_of_def)
qed

lemma columns_DataFrame: "set (columns (DataFrame rs)) = (\<Union>r\<in>set rs. fst ` set r)"
  by (simp add: DataFrame_def Let_def set_uniq)

lemma rows_DataFrame:
  "rows (DataFrame rs) = map (\<lambda>r. map (\<lambda>c. (c, cell_of r c)) (columns (DataFrame rs))) rs"
  by (simp add: DataFrame_def Let_def)

lemma dtypes_DataFrame: "dtypes (DataFrame rs) = []"
  by (simp add: DataFrame_def Let_def)

lemma cell_of_DataFrame_row:
  assumes "r \<in> set rs"
  shows "cell_of (map (\<lambda>c. (c, cell_of r c)) (columns (DataFrame rs))) c' = cell_of r c'"
proof (cases "c' \<in> set (columns (DataFrame rs))")
  case True
  then show ?thesis by (simp add: cell_of_tabulate)
next
  case False
  with assms have "c' \<notin> fst ` set r" by (auto simp: columns_DataFrame)
  with False show ?thesis by (simp add: cell_of_tabulate cell_of_absent)
qed

lemma keys_set_cell: "fst ` set (set_cell c v r) = insert c (fst ` set r)"
  by (force simp: set_cell_def image_iff split: if_splits)

lemma keys_derive_row:
  "fst ` set (derive_row now r)
     = fst ` set r \<union> {''status'', ''sla_days'', ''age_days'', ''sla_breached''}"
  by (auto simp: derive_row_def Let_def keys_set_cell)

lemma sla_map_severity: "v \<in> set severities \<Longrightarrow> \<exists>s. sla_map v = IntV s"
  by (auto simp: severities_def sla_map_def)

lemma derive_row_ok:
  assumes "gen_row_ok today r"
  shows "derived_ok (derive_row now r)"
proof -
  from assms obtain d where c: "cell_of r ''created_at'' = TimeV (today - timedelta d)"
    and sv: "cell_of r ''severity'' \<in> set severities"
    and st: "cell_of r ''status'' \<in> set STATUSES"
    by (auto simp: gen_row_ok_def)
  from sla_map_severity [OF sv] obtain s where s: "sla_map (cell_of r ''severity'') = IntV s" ..
  have o: "cell_of (derive_row now r) ''severity'' = cell_of r ''severity''"
    by (rule derive_row_other) simp
  show ?thesis
    unfolding derived_ok_def derive_row_cells o
    using c sv st s by (simp add: age_of_def gt_cell_def)
qed

lemma courses_nonempty: "0 < n \<Longrightarrow> courses_of n \<noteq> []"
  by (simp add: courses_of_def)

lemma derive_row_cells_ok:
  assumes "cell_of r ''severity'' \<in> set severities" "cell_of r ''status'' \<in> set STATUSES"
    "\<exists>d. cell_of r ''created_at'' = TimeV (today - timedelta d)"
  shows "derived_ok (derive_row now r)"
proof -
  from assms(3) obtain t where c: "cell_of r ''created_at'' = TimeV t" by blast
  from sla_map_severity [OF assms(1)] obtain s where s: "sla_map (cell_of r ''severity'') = IntV s" ..
  have o: "cell_of (derive_row now r) ''severity'' = cell_of r ''severity''"
    by (rule derive_row_other) simp
  show ?thesis
    unfolding derived_ok_def derive_row_cells o
    using c assms(1,2) s by (simp add: age_of_def gt_cell_def)
qed

lemma example_data_ok:
  assumes "rng_ok G" "0 < n_courses" "0 < n_rows"
  shows "\<exists>df. example_data G n_courses n_rows clock1 clock2 = Inr df \<and>
     length (rows df) = nat n_rows \<and>
     set (columns df) = final_keys \<and>
     (\<forall>r\<in>set (rows df). fst ` set r = final_keys \<and> derived_ok r \<and>
        (\<exists>d. 0 \<le> d \<and> d < 40 \<and>
           cell_of r ''created_at'' = TimeV (normalize clock1 - timedelta d))) \<and>
     map_of (dtypes df) ''status'' = Some statuses \<and>
     fst ` set (dtypes df) \<subseteq> {''status''}"
proof -
  let ?today = "normalize clock1"
  from gen_rows_ok [OF assms(1) courses_nonempty [OF assms(2)], of ?today "[0..<nat n_rows]" "default_rng G 42"]
  obtain rs where rs: "gen_rows G (courses_of n_courses) ?today [0..<nat n_rows] (default_rng G 42) = Inr rs"
    and len: "length rs = nat n_rows" and ok: "\<forall>r\<in>set rs. gen_row_ok ?today r"
    by auto
  from len assms(3) have ne: "rs \<noteq> []" by auto
  have keys: "\<forall>r\<in>set rs. fst ` set r = set row_keys"
  proof
    fix r assume "r \<in> set rs"
    with ok have "map fst r = row_keys" by (simp add: gen_row_ok_def)
    then have "set (map fst r) = set row_keys" by simp
    then show "fst ` set r = set row_keys" by simp
  qed
  with ne have cols: "set (columns (DataFrame rs)) = set row_keys"
    by (cases rs) (auto simp: columns_DataFrame)
  then have "''status'' \<in> set (columns (DataFrame rs))" "''severity'' \<in> set (columns (DataFrame rs))"
    "''created_at'' \<in> set (columns (DataFrame rs))"
    by (simp_all add: row_keys_def)
  from derive_rows [OF this, of clock2] obtain df where
    df: "derive clock2 (DataFrame rs) = Inr df"
    and r: "rows df = map (derive_row clock2) (rows (DataFrame rs))"
    and c: "set (columns df) = set (columns (DataFrame rs)) \<union> {''sla_days'', ''age_days'', ''sla_breached''}"
    and d: "map_of (dtypes df) ''status'' = Some statuses"
    and k: "fst ` set (dtypes df) \<subseteq> insert ''status'' (fst ` set (dtypes (DataFrame rs)))"
    by blast
  have e: "example_data G n_courses n_rows clock1 clock2 = Inr df"
    by (simp add: example_data_def Let_def rs then_do_def df)
  have "\<forall>r\<in>set (rows df). fst ` set r = final_keys \<and> derived_ok r \<and>
        (\<exists>d. 0 \<le> d \<and> d < 40 \<and>
           cell_of r ''created_at'' = TimeV (normalize clock1 - timedelta d))"
  proof
    fix r' assume "r' \<in> set (rows df)"
    then obtain r where r0: "r \<in> set rs"
      and r': "r' = derive_row clock2 (map (\<lambda>c. (c, cell_of r c)) (columns (DataFrame rs)))"
      unfolding r rows_DataFrame by auto
    let ?r = "map (\<lambda>c. (c, cell_of r c)) (columns (DataFrame rs))"
    have kr: "fst ` set ?r = set row_keys"
      using cols by (simp add: image_image)
    have "''status'' \<in> set row_keys" by (simp add: row_keys_def)
    then have 1: "fst ` set r' = final_keys"
      unfolding r' keys_derive_row final_keys_def kr by blast
    from ok r0 have g: "gen_row_ok ?today r" by simp
    have cs: "cell_of ?r ''severity'' = cell_of r ''severity''"
      "cell_of ?r ''status'' = cell_of r ''status''"
      "cell_of ?r ''created_at'' = cell_of r ''created_at''"
      by (simp_all only: cell_of_DataFrame_row [OF r0])
    from g have g': "cell_of ?r ''severity'' \<in> set severities" "cell_of ?r ''status'' \<in> set STATUSES"
      "\<exists>d. cell_of ?r ''created_at'' = TimeV (?today - timedelta d)"
      unfolding cs gen_row_ok_def by blast+
    have 2: "derived_ok r'"
      unfolding r' by (rule derive_row_cells_ok [OF g'])
    have "cell_of r' ''created_at'' = cell_of ?r ''created_at''"
      unfolding r' by (rule derive_row_other) simp
    with g have 3: "\<exists>d. 0 \<le> d \<and> d < 40 \<and>
           cell_of r' ''created_at'' = TimeV (normalize clock1 - timedelta d)"
      unfolding cs gen_row_ok_def by simp
    from 1 2 3 show "fst ` set r' = final_keys \<and> derived_ok r' \<and>
        (\<exists>d. 0 \<le> d \<and> d < 40 \<and>
           cell_of r' ''created_at'' = TimeV (normalize clock1 - timedelta d))" by simp
  qed
  moreover have "length (rows df) = nat n_rows"
    by (simp add: r rows_DataFrame len)
  moreover have "set (columns df) = final_keys"
    using c cols by (simp add: final_keys_def)
  moreover have "fst ` set (dtypes df) \<subseteq> {''status''}"
    using k by (simp add: dtypes_DataFrame)
  ultimately show ?thesis using e d by blast
qed

lemma rng_ok_counter: "rng_ok counter_rng"
proof -
  have "lo + int g mod (hi - lo) < hi" if "lo < hi" for lo hi :: int and g :: nat
  proof -
    from that have "int g mod (hi - lo) < hi - lo" by simp
    then show ?thesis by linarith
  qed
  then show ?thesis by (simp add: rng_ok_def counter_rng_def)
qed

lemma norm_fixed: "k \<in> final_keys \<Longrightarrow> lower (strip k) = k"
  by (auto simp: final_keys_def row_keys_def lower_def strip_def lower_char_def is_space_def)

lemma rename_columns_id:
  assumes "\<forall>k\<in>set (columns df). f k = k" "\<forall>r\<in>set (rows df). \<forall>k\<in>fst ` set r. f k = k"
    "\<forall>k\<in>fst ` set (dtypes df). f k = k"
  shows "rename_columns f df = df"
proof -
  have 1: "map f (columns df) = columns df"
    using assms(1) by (simp add: map_idI)
  have 2: "map (map (\<lambda>(k, v). (f k, v))) (rows df) = rows df"
  proof (rule map_idI)
    fix r assume "r \<in> set (rows df)"
    with assms(2) have "\<forall>k\<in>fst ` set r. f k = k" by simp
    then show "map (\<lambda>(k, v). (f k, v)) r = r"
      by (intro map_idI) force
  qed
  have 3: "map (\<lambda>(k, d). (f k, d)) (dtypes df) = dtypes df"
    using assms(3) by (intro map_idI) force
  show ?thesis by (simp add: rename_columns_def 1 2 3)
qed

lemma coerce_category_props:
  shows "columns (coerce_category df c) = columns df"
    and "list_all2 same_cells (rows (coerce_category df c)) (rows df)"
    and "map_of (dtypes df) k = Some d \<Longrightarrow> map_of (dtypes (coerce_category df c)) k = Some d"
proof -
  show "columns (coerce_category df c) = columns df"
    by (simp add: coerce_category_def Let_def columns_setitem split: option.splits)
  have r: "rows (setitem df c (map (\<lambda>r. cell_of r c) (rows df)) dt)
      = map (\<lambda>r. set_cell c (cell_of r c) r) (rows df)" for dt
    by (rule rows_setitem_map)
  have "list_all2 same_cells (map (\<lambda>r. set_cell c (cell_of r c) r) (rows df)) (rows df)"
    by (simp add: list_all2_map1 list_all2_same same_cells_def cell_of_set_cell)
  then show "list_all2 same_cells (rows (coerce_category df c)) (rows df)"
    by (simp add: coerce_category_def Let_def r list_all2_same same_cells_def split: option.splits)
  show "map_of (dtypes df) k = Some d \<Longrightarrow> map_of (dtypes (coerce_category df c)) k = Some d"
    by (auto simp: coerce_category_def Let_def map_of_dtypes_setitem split: option.splits)
qed

lemma same_cells_trans: "same_cells a b \<Longrightarrow> same_cells b c \<Longrightarrow> same_cells a c"
  by (simp add: same_cells_def)

lemma foldl_coerce_props:
  shows "columns (foldl coerce_category df cs) = columns df"
    and "list_all2 same_cells (rows (foldl coerce_category df cs)) (rows df)"
    and "map_of (dtypes df) k = Some d \<Longrightarrow> map_of (dtypes (foldl coerce_category df cs)) k = Some d"
proof (induction cs arbitrary: df)
  case Nil
  {
    case 1 show ?case by simp
  next
    case 2 show ?case by (simp add: list_all2_same same_cells_def)
  next
    case 3 then show ?case by simp
  }
next
  case (Cons c cs)
  {
    case 1 show ?case by (simp add: Cons.IH(1) coerce_category_props(1))
  next
    case 2
    have "list_all2 same_cells (rows (foldl coerce_category (coerce_category df c) cs))
            (rows (coerce_category df c))" by (rule Cons.IH(2))
    from list_all2_trans [OF _ this coerce_category_props(2)] same_cells_trans
    show ?case by auto
  next
    case 3 then show ?case by (simp add: Cons.IH(3) coerce_category_props(3))
  }
qed

lemma derived_ok_same_cells: "same_cells r' r \<Longrightarrow> derived_ok r \<Longrightarrow> derived_ok r'"
  by (simp add: same_cells_def derived_ok_def)

lemma list_all2_left: "list_all2 P xs ys \<Longrightarrow> x \<in> set xs \<Longrightarrow> \<exists>y\<in>set ys. P x y"
  by (induction rule: list_all2_induct) auto

lemma load_data_demo:
  assumes "rng_ok G"
  shows "\<exists>df. load_data G to_datetime None clock1 clock2 = Inr df \<and>
     length (rows df) = 250 \<and> set (columns df) = final_keys \<and>
     (\<forall>r\<in>set (rows df). derived_ok r) \<and>
     map_of (dtypes df) ''status'' = Some statuses"
proof -
  from example_data_ok [OF assms, of 3 250 clock1 clock2] obtain df0 where
    e: "example_data G 3 250 clock1 clock2 = Inr df0"
    and len: "length (rows df0) = 250"
    and cols: "set (columns df0) = final_keys"
    and rws: "\<forall>r\<in>set (rows df0). fst ` set r = final_keys \<and> derived_ok r \<and>
        (\<exists>d. 0 \<le> d \<and> d < 40 \<and>
           cell_of r ''created_at'' = TimeV (normalize clock1 - timedelta d))"
    and dt: "map_of (dtypes df0) ''status'' = Some statuses"
    and dk: "fst ` set (dtypes df0) \<subseteq> {''status''}"
    by auto
  have "''status'' \<in> final_keys" by (simp add: final_keys_def row_keys_def)
  with dk have dk': "\<forall>k\<in>fst ` set (dtypes df0). k \<in> final_keys" by auto
  have ren: "rename_columns (\<lambda>c. lower (strip c)) df0 = df0"
  proof (rule rename_columns_id)
    show "\<forall>k\<in>set (columns df0). lower (strip k) = k"
      using cols norm_fixed by simp
    show "\<forall>r\<in>set (rows df0). \<forall>k\<in>fst ` set r. lower (strip k) = k"
      using rws norm_fixed by simp
    show "\<forall>k\<in>fst ` set (dtypes df0). lower (strip k) = k"
      using dk' norm_fixed by simp
  qed
  let ?df = "foldl coerce_category df0 cat_cols"
  have l: "load_data G to_datetime None clock1 clock2 = Inr ?df"
    by (simp add: load_data_def e then_do_def ren)
  have a: "list_all2 same_cells (rows ?df) (rows df0)"
    by (rule foldl_coerce_props(2))
  then have "length (rows ?df) = 250"
    using len by (simp add: list_all2_lengthD)
  moreover have "set (columns ?df) = final_keys"
    using cols by (simp add: foldl_coerce_props(1))
  moreover have "\<forall>r\<in>set (rows ?df). derived_ok r"
  proof
    fix r' assume "r' \<in> set (rows ?df)"
    from list_all2_left [OF a this]
    obtain r where "r \<in> set (rows df0)" "same_cells r' r"
      by (rule bexE)
    with rws show "derived_ok r'" by (simp add: derived_ok_same_cells)
  qed
  moreover have "map_of (dtypes ?df) ''status'' = Some statuses"
    using dt by (rule foldl_coerce_props(3))
  ultimately show ?thesis using l by simp
qed



lemma normalize_days: "normalize t = days t * NS_PER_DAY"
  by (simp add: normalize_def days_def minus_mod_eq_div_mult)

lemma age_of_aligned:
  assumes "aligned v" "days now = days now'"
  shows "age_of now v = age_of now' v"
proof (cases v)
  case (TimeV t)
  with assms(1) obtain k where k: "t = NS_PER_DAY * k" by (auto simp: aligned_def)
  have nz: "NS_PER_DAY \<noteq> 0" by (simp add: NS_PER_DAY_def)
  have "(c - NS_PER_DAY * k) div NS_PER_DAY = c div NS_PER_DAY - k" for c
  proof -
    have "c - NS_PER_DAY * k = c + (- k) * NS_PER_DAY" by simp
    then show ?thesis by (simp only: div_mult_self1 [OF nz])
  qed
  then show ?thesis using assms(2) by (simp add: TimeV k age_of_def days_def)
qed (simp_all add: age_of_def)

lemma make_row_created:
  assumes "make_row G courses today i g = Inr (r, g')"
  shows "\<exists>d. cell_of r ''created_at'' = TimeV (today - timedelta d)"
proof (cases "courses = []")
  case True
  have ne: "STATUSES \<noteq> []" by (simp add: STATUSES_def)
  from True have "make_row G courses today i g = Inl EmptyChoice"
    by (simp add: make_row_def choice_eq ne statuses_def split_def Let_def then_do_def)
      (simp add: choice_def)
  with assms show ?thesis by simp
next
  case False
  have ne: "severities \<noteq> []" "STATUSES \<noteq> []" "item_types \<noteq> []"
    by (simp_all add: severities_def STATUSES_def item_types_def)
  from assms show ?thesis
    by (simp add: make_row_def choice_eq False units_nonempty ne statuses_def split_def Let_def
        then_do_def) (auto simp: cell_of_def)
qed

lemma gen_rows_created:
  "gen_rows G courses today is g = Inr rs
     \<Longrightarrow> \<forall>r\<in>set rs. \<exists>d. cell_of r ''created_at'' = TimeV (today - timedelta d)"
proof (induction "is" arbitrary: g rs)
  case Nil
  then show ?case by simp
next
  case (Cons i "is")
  from Cons.prems obtain r g' rs' where
    r: "make_row G courses today (int i) g = Inr (r, g')"
    and rs': "gen_rows G courses today is g' = Inr rs'" and e: "rs = r # rs'"
    by (auto simp: then_do_def split: sum.splits)
  from make_row_created [OF r] Cons.IH [OF rs'] show ?case by (simp add: e)
qed

lemma derive_same_day:
  assumes al: "\<forall>r\<in>set (rows df). aligned (cell_of r ''created_at'')"
    and dd: "days now = days now'"
  shows "derive now df = derive now' df"
proof (cases "''status'' \<in> set (columns df) \<and> ''severity'' \<in> set (columns df)
    \<and> ''created_at'' \<in> set (columns df)")
  case True
  let ?st = "\<lambda>r. if cell_of r ''status'' \<in> set STATUSES then cell_of r ''status'' else NaN"
  define df1 where "df1 = setitem df ''status'' (astype statuses (map (\<lambda>r. cell_of r ''status'') (rows df))) (Some statuses)"
  have a1: "astype statuses (map (\<lambda>r. cell_of r ''status'') (rows df)) = map ?st (rows df)"
    by (simp add: astype_def statuses_def)
  have r1: "rows df1 = map (\<lambda>r. set_cell ''status'' (?st r) r) (rows df)"
    unfolding df1_def a1 by (rule rows_setitem_map)
  have c1: "columns df1 = columns df"
    using True by (simp add: df1_def columns_setitem)
  define df2 where "df2 = setitem df1 ''sla_days'' (map sla_map (map (\<lambda>r. cell_of r ''severity'') (rows df1))) None"
  have r2: "rows df2 = map (\<lambda>r. set_cell ''sla_days'' (sla_map (cell_of r ''severity'')) r) (rows df1)"
    unfolding df2_def using rows_setitem_map [of df1 "''sla_days''" "\<lambda>r. sla_map (cell_of r ''severity'')" None]
    by (simp add: comp_def)
  have c2: "set (columns df2) = set (columns df) \<union> {''sla_days''}"
    by (auto simp: df2_def columns_setitem c1)
  have g1: "getitem df ''status'' = Inr (map (\<lambda>r. cell_of r ''status'') (rows df))"
    using True by (simp add: getitem_Inr)
  have g2: "getitem df1 ''severity'' = Inr (map (\<lambda>r. cell_of r ''severity'') (rows df1))"
    using True c1 by (simp add: getitem_Inr)
  have g3: "getitem df2 ''created_at'' = Inr (map (\<lambda>r. cell_of r ''created_at'') (rows df2))"
    using True c2 by (simp add: getitem_Inr)
  define F where "F ages =
     (let df3 = setitem df2 ''age_days'' ages None in
      then_do (getitem df3 ''age_days'') (\<lambda>age.
      then_do (getitem df3 ''sla_days'') (\<lambda>sla.
      Inr (setitem df3 ''sla_breached'' (map (\<lambda>(a, b). gt_cell a b) (zip age sla)) None))))" for ages
  have d: "derive n df = F (map (age_of n) (map (\<lambda>r. cell_of r ''created_at'') (rows df2)))" for n
    unfolding F_def derive_def g1 then_do_Inr2 Let_def df1_def [symmetric] g2 df2_def [symmetric] g3 ..
  have "\<forall>r\<in>set (rows df2). aligned (cell_of r ''created_at'')"
    using al by (simp add: r2 r1 cell_of_set_cell)
  then have "map (age_of now) (map (\<lambda>r. cell_of r ''created_at'') (rows df2))
      = map (age_of now') (map (\<lambda>r. cell_of r ''created_at'') (rows df2))"
    by (simp add: age_of_aligned [OF _ dd])
  then show ?thesis by (simp only: d)
next
  case False
  then show ?thesis
    by (auto simp: derive_def getitem_def then_do_def Let_def columns_setitem)
qed

lemma example_data_clock:
  assumes "days clock1 = days clock1'" "days clock2 = days clock2'"
  shows "example_data G n_courses n_rows clock1 clock2
     = example_data G n_courses n_rows clock1' clock2'"
proof -
  from assms(1) have n: "normalize clock1' = normalize clock1" by (simp add: normalize_days)
  show ?thesis
  proof (cases "gen_rows G (courses_of n_courses) (normalize clock1) [0..<nat n_rows] (default_rng G 42)")
    case (Inl e)
    then show ?thesis by (simp add: example_data_def Let_def n then_do_def)
  next
    case (Inr rs)
    have "\<forall>r\<in>set (rows (DataFrame rs)). aligned (cell_of r ''created_at'')"
    proof
      fix r' assume "r' \<in> set (rows (DataFrame rs))"
      then obtain r where r: "r \<in> set rs"
        and r': "r' = map (\<lambda>c. (c, cell_of r c)) (columns (DataFrame rs))"
        unfolding rows_DataFrame by auto
      from gen_rows_created [OF Inr] r obtain d where
        "cell_of r ''created_at'' = TimeV (normalize clock1 - timedelta d)" by auto
      then have "cell_of r' ''created_at'' = TimeV (NS_PER_DAY * (days clock1 - d))"
        unfolding r' cell_of_DataFrame_row [OF r]
        by (simp add: normalize_days timedelta_def algebra_simps)
      then show "aligned (cell_of r' ''created_at'')" by (simp add: aligned_def)
    qed
    from derive_same_day [OF this assms(2)]
    show ?thesis by (simp add: example_data_def Let_def n then_do_def Inr)
  qed
qed

lemma cache_data_hit:
  assumes "cache_data f cache k = (Inr v, cache')"
  shows "cache_data f' cache' k = (Inr v, cache')"
  using assms by (auto simp: cache_data_def split: option.splits sum.splits)

text \<open>
  Claim C8, as stated, fails: the table depends on the clock. The generator called with
  its default arguments on one day and again forty days later returns different tables.
\<close>

theorem example_data_clock_counterexample:
  "example_data counter_rng 3 250 0 0
     \<noteq> example_data counter_rng 3 250 (40 * NS_PER_DAY) (40 * NS_PER_DAY)"
proof
  assume eq: "example_data counter_rng 3 250 0 0
     = example_data counter_rng 3 250 (40 * NS_PER_DAY) (40 * NS_PER_DAY)"
  from example_data_ok [OF rng_ok_counter, of 3 250 0 0] obtain df where
    a: "example_data counter_rng 3 250 0 0 = Inr df" and len: "length (rows df) = nat 250"
    and ra: "\<forall>r\<in>set (rows df). \<exists>d. 0 \<le> d \<and> d < 40 \<and>
           cell_of r ''created_at'' = TimeV (normalize 0 - timedelta d)"
    by auto
  from example_data_ok [OF rng_ok_counter, of 3 250 "40 * NS_PER_DAY" "40 * NS_PER_DAY"]
  obtain df' where
    b: "example_data counter_rng 3 250 (40 * NS_PER_DAY) (40 * NS_PER_DAY) = Inr df'"
    and rb: "\<forall>r\<in>set (rows df'). \<exists>d. 0 \<le> d \<and> d < 40 \<and>
           cell_of r ''created_at'' = TimeV (normalize (40 * NS_PER_DAY) - timedelta d)"
    by auto
  from eq a b have e: "df' = df" by simp
  from len obtain r where r: "r \<in> set (rows df)" by (cases "rows df") auto
  from ra r obtain d where d: "0 \<le> d" "cell_of r ''created_at'' = TimeV (normalize 0 - timedelta d)"
    by auto
  from rb r e obtain d' where d': "d' < 40"
    "cell_of r ''created_at'' = TimeV (normalize (40 * NS_PER_DAY) - timedelta d')"
    by auto
  from d(2) d'(2) have "normalize 0 - timedelta d = normalize (40 * NS_PER_DAY) - timedelta d'"
    by simp
  then have "- d * NS_PER_DAY = (40 - d') * NS_PER_DAY"
    by (simp add: normalize_def timedelta_def algebra_simps)
  then have "- d = 40 - d'" by (simp add: NS_PER_DAY_def)
  with d(1) d'(1) show False by simp
qed

text \<open>
  Claim C8, amended. Two runs of the generator with the same arguments return the same
  result whenever their two clock readings fall on the same calendar days; and a call of
  the cached generator that follows a call with the same arguments on the same cache
  returns the table of the first call, whatever the clock.
\<close>

theorem example_data_repeatable:
  "(days clock1 = days clock1' \<and> days clock2 = days clock2' \<longrightarrow>
      example_data G n_courses n_rows clock1 clock2
        = example_data G n_courses n_rows clock1' clock2') \<and>
   (example_data_cached G clock1 clock2 cache args = (Inr t, cache') \<longrightarrow>
      example_data_cached G clock1' clock2' cache' args = (Inr t, cache'))"
  using example_data_clock [of clock1 clock1' clock2 clock2' G n_courses n_rows]
    cache_data_hit [of _ cache args t cache']
  by (simp add: example_data_cached_def)

theorem example_data_repeatable_witness:
  "example_data counter_rng 3 250 0 5 = example_data counter_rng 3 250 7 11 \<and>
   (\<exists>t c. example_data_cached counter_rng 0 5 Map.empty (3, 250) = (Inr t, c) \<and>
          example_data_cached counter_rng (40 * NS_PER_DAY) (40 * NS_PER_DAY) c (3, 250)
            = (Inr t, c))"
proof
  have "days 0 = days 7 \<and> days 5 = days 11" by (simp add: days_def NS_PER_DAY_def)
  with example_data_repeatable [THEN conjunct1, rule_format, of 0 7 5 11 counter_rng 3 250]
  show "example_data counter_rng 3 250 0 5 = example_data counter_rng 3 250 7 11" by simp
  from example_data_ok [OF rng_ok_counter, of 3 250 0 5] obtain df where
    a: "example_data counter_rng 3 250 0 5 = Inr df" by auto
  then have c: "example_data_cached counter_rng 0 5 Map.empty (3, 250)
      = (Inr df, [(3, 250) \<mapsto> df])"
    by (simp add: example_data_cached_def cache_data_def)
  have "example_data_cached counter_rng (40 * NS_PER_DAY) (40 * NS_PER_DAY) [(3, 250) \<mapsto> df] (3, 250)
      = (Inr df, [(3, 250) \<mapsto> df])"
    by (rule example_data_repeatable [THEN conjunct2, rule_format, OF c])
  with c show "\<exists>t c. example_data_cached counter_rng 0 5 Map.empty (3, 250) = (Inr t, c) \<and>
          example_data_cached counter_rng (40 * NS_PER_DAY) (40 * NS_PER_DAY) c (3, 250)
            = (Inr t, c)" by blast
qed

lemma parse_dates_column_props:
  assumes "c \<in> set (columns df)"
  shows "columns (parse_dates_column td df c) = columns df"
    and "length (rows (parse_dates_column td df c)) = length (rows df)"
  using assms by (simp_all add: parse_dates_column_def Let_def columns_setitem setitem_def)

lemma read_csv_ok:
  assumes "''created_at'' \<in> set (header f)" "''updated_at'' \<in> set (header f)"
  shows "\<exists>df. read_csv td f [''created_at'', ''updated_at''] = Inr df \<and>
     columns df = header f \<and> length (rows df) = length (body f)"
proof -
  let ?raw = "\<lparr>columns = header f, rows = map (\<lambda>cs. zip (header f) cs) (body f), dtypes = []\<rparr>"
  let ?one = "parse_dates_column td ?raw ''created_at''"
  let ?two = "parse_dates_column td ?one ''updated_at''"
  have 1: "columns ?one = header f" "length (rows ?one) = length (body f)"
    using assms(1) by (simp_all add: parse_dates_column_props)
  then have 2: "columns ?two = header f" "length (rows ?two) = length (body f)"
    using assms(2) by (simp_all add: parse_dates_column_props)
  have "read_csv td f [''created_at'', ''updated_at''] = Inr ?two"
    using assms by (simp add: read_csv_def)
  with 2 show ?thesis by simp
qed


lemma columns_rename: "columns (rename_columns g df) = map g (columns df)"
  and rows_rename: "length (rows (rename_columns g df)) = length (rows df)"
  by (simp_all add: rename_columns_def)

lemma load_data_upload_ok:
  assumes "''created_at'' \<in> set (header f)" "''updated_at'' \<in> set (header f)"
  shows "\<exists>df. load_data G td (Some f) clock1 clock2 = Inr df \<and>
     columns df = map (\<lambda>c. lower (strip c)) (header f) \<and>
     length (rows df) = length (body f)"
proof -
  from read_csv_ok [OF assms, of td] obtain df0 where
    r: "read_csv td f [''created_at'', ''updated_at''] = Inr df0"
    and c: "columns df0 = header f" and l: "length (rows df0) = length (body f)" by auto
  let ?df = "foldl coerce_category (rename_columns (\<lambda>c. lower (strip c)) df0) cat_cols"
  have "load_data G td (Some f) clock1 clock2 = Inr ?df"
    by (simp add: load_data_def r then_do_def)
  moreover have "columns ?df = map (\<lambda>c. lower (strip c)) (header f)"
    by (simp add: foldl_coerce_props(1) columns_rename c)
  moreover have "length (rows ?df) = length (body f)"
    using foldl_coerce_props(2) [of "rename_columns (\<lambda>c. lower (strip c)) df0" cat_cols]
    by (simp add: list_all2_lengthD rows_rename l)
  ultimately show ?thesis by simp
qed



lemma norm_required: "map (\<lambda>c. lower (strip c)) (header required_upload) = header required_upload"
  by (simp add: required_upload_def lower_def strip_def lower_char_def is_space_def)

lemma norm_no_status: "map (\<lambda>c. lower (strip c)) (header no_status_upload) = header no_status_upload"
  by (simp add: no_status_upload_def lower_def strip_def lower_char_def is_space_def)

text \<open>
  Claim C3 on an upload that has the eleven required columns and no \<open>sla_days\<close>: the
  loaded table has exactly the columns of the file, so reading \<open>sla_days\<close> is a KeyError;
  nothing is derived from the severity.
\<close>

theorem upload_gets_no_sla_days:
  "\<exists>df. load_data G to_datetime (Some required_upload) clock1 clock2 = Inr df \<and>
     columns df = header required_upload \<and> length (rows df) = 1 \<and>
     getitem df ''sla_days'' = Inl (KeyError ''sla_days'')"
proof -
  have "''created_at'' \<in> set (header required_upload)" "''updated_at'' \<in> set (header required_upload)"
    by (simp_all add: required_upload_def)
  from load_data_upload_ok [OF this, of G to_datetime clock1 clock2] obtain df where
    l: "load_data G to_datetime (Some required_upload) clock1 clock2 = Inr df"
    and c: "columns df = header required_upload"
    and n: "length (rows df) = length (body required_upload)"
    by (auto simp: norm_required)
  have "''sla_days'' \<notin> set (columns df)" by (simp add: c required_upload_def)
  then have "getitem df ''sla_days'' = Inl (KeyError ''sla_days'')" by (rule getitem_Inl)
  moreover have "length (rows df) = 1" by (simp add: n required_upload_def)
  ultimately show ?thesis using l c by simp
qed





lemma apply_filters_none: "apply_filters df no_selection = Inr df"
  by (simp add: apply_filters_def filter_by_def no_selection_def then_do_def)

lemma kpis_ok:
  "''status'' \<in> set (columns fdf) \<Longrightarrow> ''severity'' \<in> set (columns fdf) \<Longrightarrow> \<exists>k. kpis fdf = Inr k"
  by (simp add: kpis_def getitem_def then_do_def Let_def)

lemma sla_breaches_KeyError:
  "''status'' \<in> set (columns fdf) \<Longrightarrow> ''sla_breached'' \<notin> set (columns fdf)
     \<Longrightarrow> sla_breaches fdf = Inl (KeyError ''sla_breached'')"
  by (simp add: sla_breaches_def getitem_def then_do_def)

text \<open>
  Claim C9 on an upload that has the eleven required columns: the load succeeds, no filter
  is selected, and the aggregation stops at line 103 with the KeyError of the column
  \<open>sla_breached\<close>, which nothing derives for an upload.
\<close>

theorem dashboard_upload_fails:
  "dashboard G to_datetime observed (Some required_upload) clock1 clock2 no_selection
     = Inl (KeyError ''sla_breached'')"
proof -
  have "''created_at'' \<in> set (header required_upload)" "''updated_at'' \<in> set (header required_upload)"
    by (simp_all add: required_upload_def)
  from load_data_upload_ok [OF this, of G to_datetime clock1 clock2] obtain df where
    l: "load_data G to_datetime (Some required_upload) clock1 clock2 = Inr df"
    and c: "columns df = header required_upload"
    by (auto simp: norm_required)
  have m: "''status'' \<in> set (columns df)" "''severity'' \<in> set (columns df)"
    "''sla_breached'' \<notin> set (columns df)"
    by (simp_all add: c required_upload_def)
  from kpis_ok [OF m(1,2)] obtain k where k: "kpis df = Inr k" ..
  have "aggregate_all observed df = Inl (KeyError ''sla_breached'')"
    by (simp add: aggregate_all_def k then_do_def sla_breaches_KeyError [OF m(1,3)])
  then show ?thesis
    by (simp add: dashboard_def l then_do_def apply_filters_none)
qed

lemma sum_insort_key:
  "sum_list (map g (insort_key f x xs)) = (g x :: nat) + sum_list (map g xs)"
  by (induction xs) auto

lemma sum_sort_key: "sum_list (map g (sort_key f xs)) = (sum_list (map g xs) :: nat)"
  by (induction xs) (simp_all add: sum_insort_key)

lemma sort_desc_props:
  shows "set (sort_desc xs) = set xs" and "length (sort_desc xs) = length xs"
    and "sum_list (map snd (sort_desc xs)) = sum_list (map snd xs)"
    and "distinct (map fst xs) \<Longrightarrow> distinct (map fst (sort_desc xs))"
    and "sorted_wrt (\<lambda>p q. snd q \<le> snd p) (sort_desc xs)"
proof -
  show "set (sort_desc xs) = set xs" by (simp add: sort_desc_def)
  show "length (sort_desc xs) = length xs" by (simp add: sort_desc_def)
  show "sum_list (map snd (sort_desc xs)) = sum_list (map snd xs)"
    by (simp add: sort_desc_def sum_sort_key)
  show "distinct (map fst xs) \<Longrightarrow> distinct (map fst (sort_desc xs))"
    by (simp add: sort_desc_def distinct_map)
  have "sorted (map (\<lambda>p. - int (snd p)) (sort_desc xs))"
    unfolding sort_desc_def by (rule sorted_sort_key)
  then show "sorted_wrt (\<lambda>p q. snd q \<le> snd p) (sort_desc xs)"
    by (simp add: sorted_wrt_map)
qed

lemma count_of_Cons: "count_of (v # vs) k = (if v = k then 1 else 0) + count_of vs k"
  by (simp add: count_of_def)

lemma sum_indicator:
  "distinct ks \<Longrightarrow> sum_list (map (\<lambda>k. if v = k then 1 else 0) ks) = (if v \<in> set ks then 1 else (0::nat))"
  by (induction ks) auto

lemma sum_count_of:
  assumes "distinct ks" "set vs \<subseteq> set ks"
  shows "sum_list (map (count_of vs) ks) = length vs"
  using assms(2)
proof (induction vs)
  case Nil
  then show ?case by (simp add: count_of_def)
next
  case (Cons v vs)
  have "sum_list (map (count_of (v # vs)) ks)
      = sum_list (map (\<lambda>k. if v = k then 1 else 0) ks) + sum_list (map (count_of vs) ks)"
    by (induction ks) (simp_all add: count_of_Cons)
  with Cons assms(1) show ?case by (simp add: sum_indicator)
qed

lemma status_typed_filtered:
  assumes "status_typed df" "apply_filters df s = Inr fdf"
  shows "status_typed fdf"
  using assms apply_filters_rows [OF assms(2)] by (auto simp: status_typed_def)

lemma value_counts_typed:
  assumes "status_typed fdf"
  shows "status_counts fdf
     = Inr (sort_desc (map (\<lambda>k. (k, count_of (map (\<lambda>r. cell_of r ''status'') (rows fdf)) k)) STATUSES))"
  using assms
  by (simp add: status_typed_def status_counts_def value_counts_def getitem_def then_do_def
      statuses_def)

lemma load_data_status_typed:
  assumes "rng_ok G"
  shows "\<exists>df. load_data G to_datetime None clock1 clock2 = Inr df \<and> status_typed df"
proof -
  from load_data_demo [OF assms, of to_datetime clock1 clock2] obtain df where
    l: "load_data G to_datetime None clock1 clock2 = Inr df"
    and c: "set (columns df) = final_keys"
    and r: "\<forall>r\<in>set (rows df). derived_ok r"
    and d: "map_of (dtypes df) ''status'' = Some statuses" by auto
  have "''status'' \<in> final_keys" by (simp add: final_keys_def row_keys_def)
  with c r d have "status_typed df" by (simp add: status_typed_def derived_ok_def)
  with l show ?thesis by simp
qed

lemma status_bar_sort_typed: "status_typed df \<Longrightarrow> status_bar_sort df = Inr STATUSES"
  by (simp add: status_typed_def status_bar_sort_def getitem_def then_do_def statuses_def)

lemma distinct_STATUSES: "distinct STATUSES"
  by (simp add: STATUSES_def)

text \<open>
  Claim C5, as stated, fails on the order of the entries: \<open>value_counts\<close> sorts them by
  descending count. In a table with two closed issues and an open one, which no filter
  changes, Closed comes first.
\<close>

theorem status_counts_order_counterexample:
  "apply_filters three_issues no_selection = Inr three_issues \<and>
   status_counts three_issues
     = Inr [(StrV ''Closed'', 2), (StrV ''Open'', 1), (StrV ''In Progress'', 0),
            (StrV ''Fixed'', 0), (StrV ''Verified'', 0)] \<and>
   map_sum id (map fst) (status_counts three_issues) \<noteq> Inr STATUSES"
proof -
  have t: "status_typed three_issues"
    by (simp add: status_typed_def three_issues_def STATUSES_def cell_of_def issue_a_def
        issue_b_def issue_c_def)
  have v: "map (\<lambda>r. cell_of r ''status'') (rows three_issues)
      = [StrV ''Closed'', StrV ''Open'', StrV ''Closed'']"
    by (simp add: three_issues_def cell_of_def issue_a_def issue_b_def issue_c_def)
  have s: "status_counts three_issues
     = Inr [(StrV ''Closed'', 2), (StrV ''Open'', 1), (StrV ''In Progress'', 0),
            (StrV ''Fixed'', 0), (StrV ''Verified'', 0)]"
    unfolding value_counts_typed [OF t] v
    by (simp add: STATUSES_def count_of_def sort_desc_def)
  show ?thesis unfolding s by (simp add: apply_filters_none STATUSES_def)
qed

text \<open>
  Claim C5, amended. For a table whose status column is the ordered five-category column
  of the generated table, and for every table filtered from it, the status counts have
  exactly one entry for each of the five statuses, each with the number of rows of that
  status (zero included), the counts add up to the number of rows, and the entries are
  in descending order of count; the fixed order Open, In Progress, Fixed, Verified,
  Closed is the sort list that line 133 hands to the chart.
\<close>

theorem status_counts_typed:
  assumes "status_typed df" and "apply_filters df s = Inr fdf"
  shows "\<exists>sc. status_counts fdf = Inr sc \<and>
     length sc = 5 \<and> distinct (map fst sc) \<and> set (map fst sc) = set STATUSES \<and>
     (\<forall>(k, n)\<in>set sc. n = count_of (map (\<lambda>r. cell_of r ''status'') (rows fdf)) k) \<and>
     sum_list (map snd sc) = length (rows fdf) \<and>
     sorted_wrt (\<lambda>p q. snd q \<le> snd p) sc \<and>
     status_bar_sort df = Inr STATUSES"
proof -
  let ?vs = "map (\<lambda>r. cell_of r ''status'') (rows fdf)"
  let ?xs = "map (\<lambda>k. (k, count_of ?vs k)) STATUSES"
  from assms have t: "status_typed fdf" by (rule status_typed_filtered)
  then have sc: "status_counts fdf = Inr (sort_desc ?xs)" by (rule value_counts_typed)
  have f: "map fst ?xs = STATUSES" by (simp add: comp_def)
  have sub: "set ?vs \<subseteq> set STATUSES" using t by (auto simp: status_typed_def)
  have 1: "length (sort_desc ?xs) = 5" by (simp add: sort_desc_props(2) STATUSES_def)
  have 2: "distinct (map fst (sort_desc ?xs))"
    by (rule sort_desc_props(4)) (simp only: f distinct_STATUSES)
  have 3: "set (map fst (sort_desc ?xs)) = set STATUSES"
    using f by (simp only: set_map sort_desc_props(1)) (simp only: set_map [symmetric] f)
  have 4: "\<forall>(k, n)\<in>set (sort_desc ?xs). n = count_of ?vs k"
    by (auto simp: sort_desc_props(1))
  have "sum_list (map snd ?xs) = sum_list (map (count_of ?vs) STATUSES)" by (simp add: comp_def)
  also have "\<dots> = length ?vs" using distinct_STATUSES sub by (rule sum_count_of)
  finally have 5: "sum_list (map snd (sort_desc ?xs)) = length (rows fdf)"
    by (simp add: sort_desc_props(3))
  have 6: "sorted_wrt (\<lambda>p q. snd q \<le> snd p) (sort_desc ?xs)" by (rule sort_desc_props(5))
  have 7: "status_bar_sort df = Inr STATUSES" using assms(1) by (rule status_bar_sort_typed)
  from sc 1 2 3 4 5 6 7 show ?thesis by simp
qed

theorem status_counts_typed_witness:
  "\<exists>sc. status_counts three_issues = Inr sc \<and> length sc = 5 \<and>
     set (map fst sc) = set STATUSES \<and> sum_list (map snd sc) = 3"
proof -
  have t: "status_typed three_issues"
    by (simp add: status_typed_def three_issues_def STATUSES_def cell_of_def issue_a_def
        issue_b_def issue_c_def)
  have "length (rows three_issues) = 3" by (simp add: three_issues_def)
  with status_counts_typed [OF t apply_filters_none] show ?thesis by auto
qed

lemma cut_value_bins:
  "cut_value age_edges age_labels v =
     (if - 1 < v \<and> v \<le> 2 then age_labels ! 0
      else if 2 < v \<and> v \<le> 5 then age_labels ! 1
      else if 5 < v \<and> v \<le> 10 then age_labels ! 2
      else if 10 < v \<and> v \<le> 20 then age_labels ! 3
      else if 20 < v \<and> v \<le> 999 then age_labels ! 4
      else NaN)"
  by (simp add: age_edges_def age_labels_def)

lemma distinct_age_labels: "distinct age_labels"
  by (simp add: age_labels_def en_dash_def)

lemma cut_ok:
  "\<forall>v\<in>set vs. \<exists>a. v = IntV a \<Longrightarrow> \<exists>bs. cut es ls vs = Inr bs \<and> length bs = length vs"
  by (induction vs) (auto simp: then_do_def)

text \<open>
  What does hold of the histogram: when \<open>age_days\<close> is a column of integers, every one
  of the five labels has exactly one entry, and the count of a label is the number of
  rows that \<open>pd.cut\<close> puts into its bin.
\<close>

lemma age_dist_all_buckets:
  assumes "''age_days'' \<in> set (columns fdf)"
    and "\<forall>r\<in>set (rows fdf). \<exists>a. cell_of r ''age_days'' = IntV a"
  shows "\<exists>ad bins. age_dist fdf = Inr ad
     \<and> cut age_edges age_labels (map (\<lambda>r. cell_of r ''age_days'') (rows fdf)) = Inr bins
     \<and> length ad = 5 \<and> distinct (map fst ad) \<and> set (map fst ad) = set age_labels
     \<and> (\<forall>(l, n)\<in>set ad. n = count_of bins l)"
proof -
  let ?vs = "map (\<lambda>r. cell_of r ''age_days'') (rows fdf)"
  from assms(2) have "\<forall>v\<in>set ?vs. \<exists>a. v = IntV a" by auto
  from cut_ok [OF this] obtain bins where b: "cut age_edges age_labels ?vs = Inr bins" by blast
  let ?xs = "map (\<lambda>l. (l, count_of bins l)) age_labels"
  have a: "age_dist fdf = Inr (sort_desc ?xs)"
    using assms(1) by (simp add: age_dist_def getitem_def then_do_def b)
  have f: "map fst ?xs = age_labels" by (simp add: comp_def)
  have 1: "length (sort_desc ?xs) = 5" by (simp add: sort_desc_props(2) age_labels_def)
  have 2: "distinct (map fst (sort_desc ?xs))"
    by (rule sort_desc_props(4)) (simp only: f distinct_age_labels)
  have 3: "set (map fst (sort_desc ?xs)) = set age_labels"
    using f by (simp only: set_map sort_desc_props(1)) (simp only: set_map [symmetric] f)
  have 4: "\<forall>(l, n)\<in>set (sort_desc ?xs). n = count_of bins l"
    by (auto simp: sort_desc_props(1))
  from a b 1 2 3 4 show ?thesis by simp
qed

text \<open>
  Claim C6 on a table with one issue whose \<open>age_days\<close> is 1000: the value is above the last
  bin edge 999, \<open>pd.cut\<close> gives it no bucket, and all five counts are zero, the count of the
  bucket labelled "more than 20 days" included.
\<close>

theorem age_dist_drops_old_issue:
  "apply_filters stale_issue no_selection = Inr stale_issue \<and>
   cut age_edges age_labels [IntV 1000] = Inr [NaN] \<and>
   age_dist stale_issue
     = Inr [(age_labels ! 0, 0), (age_labels ! 1, 0), (age_labels ! 2, 0), (age_labels ! 3, 0),
            (age_labels ! 4, 0)]"
proof -
  have c: "cut age_edges age_labels [IntV 1000] = Inr [NaN]"
    by (simp add: then_do_def cut_value_bins)
  have v: "map (\<lambda>r. cell_of r ''age_days'') (rows stale_issue) = [IntV 1000]"
    by (simp add: stale_issue_def cell_of_def)
  have l: "NaN \<notin> set age_labels" by (simp add: age_labels_def)
  have "age_dist stale_issue = Inr (sort_desc (map (\<lambda>l. (l, count_of [NaN] l)) age_labels))"
    using c by (simp add: age_dist_def getitem_def then_do_def v cut_value_bins)
      (simp add: stale_issue_def)
  also have "map (\<lambda>l. (l, count_of [NaN] l)) age_labels = map (\<lambda>l. (l, 0)) age_labels"
    using l by (intro map_cong) (auto simp: count_of_def)
  also have "sort_desc (map (\<lambda>l. (l, 0)) age_labels)
     = [(age_labels ! 0, 0), (age_labels ! 1, 0), (age_labels ! 2, 0), (age_labels ! 3, 0),
        (age_labels ! 4, 0)]"
    by (simp add: sort_desc_def age_labels_def)
  finally show ?thesis using c by (simp add: apply_filters_none)
qed












end
